theory Spec2Isabelle
  imports Complex_Main
begin

section \<open>The lane runner of src/index.tsx\<close>

text \<open>
  The simulation core of the endless runner: the tuning constants, the game data held in
  the \<open>gameData\<close> ref and in the React state hooks, the key handler, the start command
  and the per-frame \<open>animate\<close> function. JavaScript numbers are modelled as \<open>real\<close>
  (quantities) and \<open>int\<close> (indices and counters): rounding of IEEE doubles is not
  part of the model. Rendering (meshes, poses, camera, the pursuing monster) is left out;
  the audio calls are kept as a log of emitted cues, and the Three.js scene as the set of
  object ids whose mesh is attached to it.
\<close>

subsection \<open>Configuration and tuning (lines 5-21)\<close>

definition LANES :: "int \<Rightarrow> real option" where
  \<comment> \<open>The array \<open>[-2.5, 0, 2.5]\<close>; an index outside it reads \<open>undefined\<close>.\<close>
  "LANES i = (if i = 0 then Some (-2.5) else if i = 1 then Some 0
              else if i = 2 then Some 2.5 else None)"

definition LANE_SPEED :: real where "LANE_SPEED = 25"
definition GRAVITY :: real where "GRAVITY = 70"
definition JUMP_FORCE :: real where "JUMP_FORCE = 22"
definition RUN_SPEED_START :: real where "RUN_SPEED_START = 20"
definition MAX_SPEED :: real where "MAX_SPEED = 60"
definition SPEED_INC :: real where "SPEED_INC = 0.8"
definition SLIDE_DURATION :: real where "SLIDE_DURATION = 0.8"
definition SHIELD_DURATION :: real where "SHIELD_DURATION = 5.0"

definition HIT_Z_MIN :: real where "HIT_Z_MIN = -0.7"
definition HIT_Z_MAX :: real where "HIT_Z_MAX = 0.4"
definition HIT_LANE_DIST :: real where "HIT_LANE_DIST = 0.6"
definition JUMP_CLEARANCE :: real where "JUMP_CLEARANCE = 0.4"

lemmas tuning_defs =
  LANE_SPEED_def GRAVITY_def JUMP_FORCE_def RUN_SPEED_START_def MAX_SPEED_def
  SPEED_INC_def SLIDE_DURATION_def SHIELD_DURATION_def HIT_Z_MIN_def HIT_Z_MAX_def
  HIT_LANE_DIST_def JUMP_CLEARANCE_def

subsection \<open>Types (lines 23-33)\<close>

datatype GameState = START | PLAYING | GAMEOVER

datatype ObstacleType = JUMP | SLIDE | FULL

datatype ObjType = OBSTACLE | COIN | SHIELD

text \<open>
  \<open>GameObj\<close>: the field \<open>mesh\<close> is represented by the object's id in the scene set
  of the game record; \<open>subtype\<close> is optional in the source.
\<close>

record GameObj =
  obj_id :: int
  obj_type :: ObjType
  subtype :: "ObstacleType option"
  obj_lane :: int
  obj_z :: real
  active :: bool

text \<open>The cues sent to the \<open>SoundController\<close>, in the order of the calls.\<close>

datatype sound =
  StartBGM | StopBGM | PlayJump | PlaySlide | PlayCoin | PlayShield | PlayCrash | PlayGameOver

text \<open>
  One record for the whole application state: the React state hooks of \<open>App\<close> (lines
  242-246; the hook \<open>score\<close> is called \<open>score_hud\<close> here, since \<open>gameData\<close> has a
  field of the same name), the ref \<open>gameStateRef\<close>, the fields of \<open>gameData\<close> (lines
  252-267, a segment being its position \<open>z\<close>), the scene, the sound log, and the number
  of calls made to \<open>Math.random\<close> so far.
\<close>

record game =
  gameState :: GameState
  score_hud :: int
  coins :: int
  hasShield :: bool
  deathReason :: string
  gameStateRef :: GameState
  score :: real
  speed :: real
  lane :: int
  xPos :: real
  yPos :: real
  velocityY :: real
  isJumping :: bool
  isSliding :: bool
  slideTimer :: real
  shieldTimer :: real
  objects :: "GameObj list"
  segments :: "real list"
  nextSegmentZ :: real
  objIdCounter :: int
  scene :: "int set"
  sounds :: "sound list"
  randCalls :: nat

definition initialGame :: game where
  "initialGame =
     \<lparr> gameState = START, score_hud = 0, coins = 0, hasShield = False, deathReason = '''',
       gameStateRef = START,
       score = 0, speed = RUN_SPEED_START, lane = 1, xPos = 0, yPos = 0, velocityY = 0,
       isJumping = False, isSliding = False, slideTimer = 0, shieldTimer = 0,
       objects = [], segments = [], nextSegmentZ = 0, objIdCounter = 0,
       scene = {}, sounds = [], randCalls = 0 \<rparr>"

subsection \<open>Controls: \<open>handleKey\<close> (lines 518-541)\<close>

definition handleKey :: "string \<Rightarrow> game \<Rightarrow> game" where
  "handleKey k gd =
     (if gameStateRef gd \<noteq> PLAYING then gd
      else if k = ''ArrowLeft'' then
        (if lane gd > 0 then gd\<lparr>lane := lane gd - 1\<rparr> else gd)
      else if k = ''ArrowRight'' then
        (if lane gd < 2 then gd\<lparr>lane := lane gd + 1\<rparr> else gd)
      else if k = ''ArrowUp'' then
        (if \<not> isJumping gd \<and> \<not> isSliding gd
         then gd\<lparr>velocityY := JUMP_FORCE, isJumping := True, sounds := sounds gd @ [PlayJump]\<rparr>
         else gd)
      else if k = ''ArrowDown'' then
        (if isJumping gd then gd\<lparr>velocityY := - GRAVITY * 0.5\<rparr>
         else if \<not> isSliding gd
         then gd\<lparr>isSliding := True, slideTimer := SLIDE_DURATION,
                 sounds := sounds gd @ [PlaySlide]\<rparr>
         else gd)
      else gd)"

subsection \<open>The start command: \<open>startGame\<close> (lines 772-785)\<close>

definition startGame :: "game \<Rightarrow> game" where
  "startGame st =
     st\<lparr> sounds := sounds st @ [StartBGM],
         score_hud := 0, coins := 0, hasShield := False, deathReason := '''',
         score := 0, speed := RUN_SPEED_START, lane := 1, xPos := 0, shieldTimer := 0,
         gameState := PLAYING, gameStateRef := PLAYING \<rparr>"

subsection \<open>External functions\<close>

text \<open>
  \<open>THREE.MathUtils.lerp(x, y, t)\<close> of the three.js library: linear interpolation
  \<open>(1 - t) * x + t * y\<close>, with no clamping of \<open>t\<close>.
\<close>

definition lerp :: "real \<Rightarrow> real \<Rightarrow> real \<Rightarrow> real" where
  "lerp x y t = (1 - t) * x + t * y"

text \<open>
  \<open>Math.random()\<close>: the sequence of draws is a parameter \<open>rnd\<close>, and the state counts
  the calls made, so the \<open>n\<close>-th call returns \<open>rnd n\<close>.
\<close>

definition Math_random :: "(nat \<Rightarrow> real) \<Rightarrow> game \<Rightarrow> real \<times> game" where
  "Math_random rnd st = (rnd (randCalls st), st\<lparr>randCalls := Suc (randCalls st)\<rparr>)"

text \<open>
  What the model stops on. \<open>TypeError\<close>: reading \<open>.position\<close> of \<open>undefined\<close>, when
  the segment array is empty. \<open>LaneOutOfRange\<close>: with a lane index outside the array,
  \<open>LANES[gd.lane]\<close> is \<open>undefined\<close> and the source goes on with \<open>xPos = NaN\<close>, which
  \<open>real\<close> cannot represent; the model stops there instead.
\<close>

datatype error = TypeError | LaneOutOfRange

subsection \<open>Track generator: \<open>spawnObject\<close>, \<open>spawnSegment\<close>, \<open>initWorld\<close> (lines 394-515)\<close>

definition spawnObject :: "ObjType \<Rightarrow> int \<Rightarrow> real \<Rightarrow> ObstacleType option \<Rightarrow> game \<Rightarrow> game" where
  "spawnObject ty l z sub st =
     st\<lparr> scene := insert (objIdCounter st) (scene st),
         objects := objects st @
           [\<lparr> obj_id = objIdCounter st, obj_type = ty, subtype = sub, obj_lane = l,
              obj_z = z, active = True \<rparr>],
         objIdCounter := objIdCounter st + 1 \<rparr>"

text \<open>\<open>Math.floor(r * 3)\<close> of a draw \<open>r\<close>: the lane picked at lines 480, 484 and 493.\<close>

definition laneOfDraw :: "real \<Rightarrow> int" where
  "laneOfDraw u1 = \<lfloor>u1 * 3\<rfloor>"

text \<open>
  Line 481: the subtype of a single obstacle. The conditional expression draws a second
  number only when the first one is not above 0.6.
\<close>

definition pickSubtype :: "(nat \<Rightarrow> real) \<Rightarrow> game \<Rightarrow> ObstacleType \<times> game" where
  "pickSubtype rnd st =
     (let (r2, st2) = Math_random rnd st
      in if r2 > 0.6 then (FULL, st2)
         else (let (r3, st3) = Math_random rnd st2
               in (if r3 > 0.5 then JUMP else SLIDE, st3)))"

text \<open>Lines 479-482: the single-obstacle layout, entered when \<open>roll < 0.3\<close>.\<close>

definition spawnSingle :: "(nat \<Rightarrow> real) \<Rightarrow> real \<Rightarrow> game \<Rightarrow> game" where
  "spawnSingle rnd zLoc st =
     (let (r1, st1) = Math_random rnd st;
          l = laneOfDraw r1;
          (t, st2) = pickSubtype rnd st1
      in spawnObject OBSTACLE l zLoc (Some t) st2)"

text \<open>Lines 483-490: the other two layouts.\<close>

definition spawnSafeLane :: "(nat \<Rightarrow> real) \<Rightarrow> real \<Rightarrow> game \<Rightarrow> game" where
  "spawnSafeLane rnd zLoc st =
     (let (r1, st1) = Math_random rnd st;
          safe = laneOfDraw r1
      in fold (\<lambda>l s. if l \<noteq> safe then spawnObject OBSTACLE l zLoc (Some FULL) s else s)
           [0, 1, 2] st1)"

definition spawnAllJump :: "real \<Rightarrow> game \<Rightarrow> game" where
  "spawnAllJump zLoc st = fold (\<lambda>l s. spawnObject OBSTACLE l zLoc (Some JUMP) s) [0, 1, 2] st"

text \<open>Lines 492-499: the pickup.\<close>

definition spawnPickup :: "(nat \<Rightarrow> real) \<Rightarrow> real \<Rightarrow> game \<Rightarrow> game" where
  "spawnPickup rnd zLoc st =
     (let (p, st1) = Math_random rnd st
      in if p < 0.5 then
           (let (r, st2) = Math_random rnd st1;
                l = laneOfDraw r;
                busy = list_ex (\<lambda>ob. obj_z ob = zLoc \<and> obj_lane ob = l) (objects st2)
            in if \<not> busy then
                 (let (q, st3) = Math_random rnd st2
                  in if q < 0.05 then spawnObject SHIELD l zLoc None st3
                     else spawnObject COIN l zLoc None st3)
               else st2)
         else st1)"

definition spawnSegment :: "(nat \<Rightarrow> real) \<Rightarrow> real \<Rightarrow> game \<Rightarrow> game" where
  "spawnSegment rnd zPos st =
     (let st1 = st\<lparr>segments := segments st @ [zPos]\<rparr>
      in if zPos < - 10 then
           (let (roll, st2) = Math_random rnd st1;
                st3 = (if roll < 0.3 then spawnSingle rnd zPos st2
                       else if roll < 0.5 then spawnSafeLane rnd zPos st2
                       else if roll < 0.6 then spawnAllJump zPos st2
                       else st2)
            in spawnPickup rnd zPos st3)
         else st1)"

lemma spawnObject_frame [simp]:
  "segments (spawnObject ty l z sub st) = segments st"
  "nextSegmentZ (spawnObject ty l z sub st) = nextSegmentZ st"
  by (simp_all add: spawnObject_def)

lemma Math_random_frame [simp]:
  "segments (snd (Math_random rnd st)) = segments st"
  "nextSegmentZ (snd (Math_random rnd st)) = nextSegmentZ st"
  by (simp_all add: Math_random_def)

lemma spawnSingle_frame [simp]:
  "segments (spawnSingle rnd z st) = segments st"
  "nextSegmentZ (spawnSingle rnd z st) = nextSegmentZ st"
  by (simp_all add: spawnSingle_def pickSubtype_def Math_random_def Let_def)

lemma spawnSafeLane_frame [simp]:
  "segments (spawnSafeLane rnd z st) = segments st"
  "nextSegmentZ (spawnSafeLane rnd z st) = nextSegmentZ st"
  by (simp_all add: spawnSafeLane_def Math_random_def Let_def)

lemma spawnAllJump_frame [simp]:
  "segments (spawnAllJump z st) = segments st"
  "nextSegmentZ (spawnAllJump z st) = nextSegmentZ st"
  by (simp_all add: spawnAllJump_def)

lemma spawnPickup_frame [simp]:
  "segments (spawnPickup rnd z st) = segments st"
  "nextSegmentZ (spawnPickup rnd z st) = nextSegmentZ st"
  by (simp_all add: spawnPickup_def Math_random_def Let_def)

lemma spawnSegment_frame [simp]:
  "segments (spawnSegment rnd zPos st) = segments st @ [zPos]"
  "nextSegmentZ (spawnSegment rnd zPos st) = nextSegmentZ st"
  by (simp_all add: spawnSegment_def Math_random_def Let_def)

function initWorld_loop :: "(nat \<Rightarrow> real) \<Rightarrow> game \<Rightarrow> game" where
  "initWorld_loop rnd st =
     (if nextSegmentZ st > - 160
      then (let st1 = spawnSegment rnd (nextSegmentZ st) st
            in initWorld_loop rnd (st1\<lparr>nextSegmentZ := nextSegmentZ st1 - 20\<rparr>))
      else st)"
  by pat_completeness auto
termination
proof (relation "measure (\<lambda>(rnd, st). nat \<lceil>(nextSegmentZ st + 160) / 20\<rceil>)")
  show "wf (measure (\<lambda>(rnd, st). nat \<lceil>(nextSegmentZ st + 160) / 20\<rceil>))"
    by simp
next
  fix rnd :: "nat \<Rightarrow> real" and st st1 :: game
  assume pos: "- 160 < nextSegmentZ st" and st1: "st1 = spawnSegment rnd (nextSegmentZ st) st"
  have "(nextSegmentZ st - 20 + 160) / 20 = (nextSegmentZ st + 160) / 20 - 1"
    by (simp add: field_simps)
  then have "\<lceil>(nextSegmentZ st - 20 + 160) / 20\<rceil> = \<lceil>(nextSegmentZ st + 160) / 20\<rceil> - 1"
    by (simp only: ceiling_diff_one)
  moreover from pos have "0 < \<lceil>(nextSegmentZ st + 160) / 20\<rceil>"
    by (simp add: ceiling_less_iff)
  ultimately show "((rnd, st1\<lparr>nextSegmentZ := nextSegmentZ st1 - 20\<rparr>), (rnd, st))
      \<in> measure (\<lambda>(rnd, st). nat \<lceil>(nextSegmentZ st + 160) / 20\<rceil>)"
    using st1 by simp
qed

definition initWorld :: "(nat \<Rightarrow> real) \<Rightarrow> game \<Rightarrow> game" where
  "initWorld rnd st =
     initWorld_loop rnd
       (st\<lparr> scene := scene st - obj_id ` set (objects st), objects := [], segments := [],
            nextSegmentZ := 80 \<rparr>)"

subsection \<open>The frame function \<open>animate\<close>, Playing branch (lines 609-743)\<close>

text \<open>Lines 615-617: speed and score.\<close>

definition updateSpeed :: "real \<Rightarrow> game \<Rightarrow> game" where
  "updateSpeed delta gd =
     (let gd1 = gd\<lparr>speed := min (speed gd + SPEED_INC * delta) MAX_SPEED\<rparr>;
          gd2 = gd1\<lparr>score := score gd1 + speed gd1 * delta\<rparr>
      in gd2\<lparr>score_hud := \<lfloor>score gd2\<rfloor>\<rparr>)"

text \<open>Lines 620-627: the shield countdown.\<close>

definition updateShield :: "real \<Rightarrow> game \<Rightarrow> game" where
  "updateShield delta gd =
     (if shieldTimer gd > 0 then
        (let gd1 = gd\<lparr>shieldTimer := shieldTimer gd - delta\<rparr>
         in if shieldTimer gd1 \<le> 0 then gd1\<lparr>hasShield := False\<rparr> else gd1)
      else gd)"

text \<open>Lines 630-631: the lateral move toward the lane's offset.\<close>

definition moveLateral :: "real \<Rightarrow> game \<Rightarrow> error + game" where
  "moveLateral delta gd =
     (case LANES (lane gd) of
        None \<Rightarrow> Inl LaneOutOfRange
      | Some targetX \<Rightarrow> Inr (gd\<lparr>xPos := lerp (xPos gd) targetX (delta * LANE_SPEED)\<rparr>))"

text \<open>Lines 633-647: jump, slide or run.\<close>

definition moveVertical :: "real \<Rightarrow> game \<Rightarrow> game" where
  "moveVertical delta gd =
     (if isJumping gd then
        (let gd1 = gd\<lparr>yPos := yPos gd + velocityY gd * delta\<rparr>;
             gd2 = gd1\<lparr>velocityY := velocityY gd1 - GRAVITY * delta\<rparr>
         in if yPos gd2 \<le> 0 then gd2\<lparr>yPos := 0, isJumping := False, velocityY := 0\<rparr>
            else gd2)
      else if isSliding gd then
        (let gd1 = gd\<lparr>slideTimer := slideTimer gd - delta, yPos := 0\<rparr>
         in if slideTimer gd1 \<le> 0 then gd1\<lparr>isSliding := False\<rparr> else gd1)
      else gd\<lparr>yPos := 0\<rparr>)"

text \<open>
  Lines 667-677: the world scrolls by \<open>moveZ\<close>, at most one segment is dropped at the
  front, and segments are appended at the far end while the last one is nearer than -160.
\<close>

function extendSegments :: "(nat \<Rightarrow> real) \<Rightarrow> game \<Rightarrow> error + game" where
  "extendSegments rnd gd =
     (if segments gd = [] then Inl TypeError
      else if last (segments gd) > - 160
      then extendSegments rnd (spawnSegment rnd (last (segments gd) - 20) gd)
      else Inr gd)"
  by pat_completeness auto
termination
proof (relation "measure (\<lambda>(rnd, gd). nat \<lceil>(last (segments gd) + 160) / 20\<rceil>)")
  show "wf (measure (\<lambda>(rnd, gd). nat \<lceil>(last (segments gd) + 160) / 20\<rceil>))"
    by simp
next
  fix rnd :: "nat \<Rightarrow> real" and gd :: game
  assume far: "- 160 < last (segments gd)"
  have "(last (segments gd) - 20 + 160) / 20 = (last (segments gd) + 160) / 20 - 1"
    by (simp add: field_simps)
  then have "\<lceil>(last (segments gd) - 20 + 160) / 20\<rceil> = \<lceil>(last (segments gd) + 160) / 20\<rceil> - 1"
    by (simp only: ceiling_diff_one)
  moreover from far have "0 < \<lceil>(last (segments gd) + 160) / 20\<rceil>"
    by (simp add: ceiling_less_iff)
  ultimately show "((rnd, spawnSegment rnd (last (segments gd) - 20) gd), (rnd, gd))
      \<in> measure (\<lambda>(rnd, gd). nat \<lceil>(last (segments gd) + 160) / 20\<rceil>)"
    by simp
qed

definition worldMove :: "(nat \<Rightarrow> real) \<Rightarrow> real \<Rightarrow> game \<Rightarrow> error + game" where
  "worldMove rnd moveZ gd =
     (let gd1 = gd\<lparr>segments := map (\<lambda>z. z + moveZ) (segments gd)\<rparr>
      in case segments gd1 of
           [] \<Rightarrow> Inl TypeError
         | z0 # rest \<Rightarrow>
             extendSegments rnd (if z0 > 80 then gd1\<lparr>segments := rest\<rparr> else gd1))"

text \<open>Lines 709-719: does an aligned obstacle hit, and the reason shown if it kills.\<close>

definition obstacleHit :: "GameObj \<Rightarrow> game \<Rightarrow> bool \<times> string" where
  "obstacleHit obj gd =
     (if subtype obj = Some JUMP then (\<not> yPos gd > JUMP_CLEARANCE, ''TRIPPED ON LOG'')
      else if subtype obj = Some SLIDE then (\<not> isSliding gd, ''HIT HEAD ON GATE'')
      else (True, ''SMASHED INTO WALL''))"

text \<open>Line 694: the object is inside the hit window.\<close>

definition inHitWindow :: "GameObj \<Rightarrow> bool" where
  "inHitWindow obj \<longleftrightarrow> obj_z obj > HIT_Z_MIN \<and> obj_z obj < HIT_Z_MAX"

text \<open>
  Lines 695-696: the player is within the lane distance of the object's lane. With a lane
  outside the array the distance is \<open>NaN\<close> and the comparison is false.
\<close>

definition aligned :: "GameObj \<Rightarrow> game \<Rightarrow> bool" where
  "aligned obj gd =
     (case LANES (obj_lane obj) of
        None \<Rightarrow> False
      | Some laneX \<Rightarrow> \<bar>xPos gd - laneX\<bar> < HIT_LANE_DIST)"

text \<open>
  Lines 694-736: the collision of one object, already moved and kept in \<open>nextObjects\<close>.
  The object is mutated in place, so the entry of \<open>nextObjects\<close> is the returned object.
\<close>

definition collide :: "GameObj \<Rightarrow> game \<Rightarrow> GameObj \<times> game" where
  "collide obj gd =
     (if inHitWindow obj \<and> aligned obj gd then
        (case obj_type obj of
           COIN \<Rightarrow>
             (obj\<lparr>active := False\<rparr>,
              gd\<lparr>scene := scene gd - {obj_id obj}, coins := coins gd + 1,
                 sounds := sounds gd @ [PlayCoin]\<rparr>)
         | SHIELD \<Rightarrow>
             (obj\<lparr>active := False\<rparr>,
              gd\<lparr>scene := scene gd - {obj_id obj}, shieldTimer := SHIELD_DURATION,
                 hasShield := True, sounds := sounds gd @ [PlayShield]\<rparr>)
         | OBSTACLE \<Rightarrow>
             (let (hit, reason) = obstacleHit obj gd
              in if hit then
                   (if shieldTimer gd > 0 then
                      (obj\<lparr>active := False\<rparr>,
                       gd\<lparr>scene := scene gd - {obj_id obj},
                          sounds := sounds gd @ [PlayCrash]\<rparr>)
                    else
                      (obj,
                       gd\<lparr>sounds := sounds gd @ [StopBGM, PlayGameOver],
                          gameStateRef := GAMEOVER, deathReason := reason,
                          gameState := GAMEOVER\<rparr>))
                 else (obj, gd)))
      else (obj, gd))"

text \<open>Lines 681-737: the body of the \<open>forEach\<close>, on the state and \<open>nextObjects\<close>.\<close>

definition objectStep :: "real \<Rightarrow> GameObj \<Rightarrow> game \<times> GameObj list \<Rightarrow> game \<times> GameObj list" where
  "objectStep moveZ obj0 acc =
     (let (gd, nextObjects) = acc
      in if \<not> active obj0 then (gd, nextObjects)
         else (let obj = obj0\<lparr>obj_z := obj_z obj0 + moveZ\<rparr>
               in if obj_z obj > 25
                  then (gd\<lparr>scene := scene gd - {obj_id obj}\<rparr>, nextObjects)
                  else (let (obj1, gd1) = collide obj gd
                        in (gd1, nextObjects @ [obj1]))))"

text \<open>Lines 680-738: the loop over \<open>gd.objects\<close>, then \<open>gd.objects = nextObjects\<close>.\<close>

definition updateObjects :: "real \<Rightarrow> game \<Rightarrow> game" where
  "updateObjects moveZ gd =
     (let (gd1, nextObjects) = fold (objectStep moveZ) (objects gd) (gd, [])
      in gd1\<lparr>objects := nextObjects\<rparr>)"

text \<open>
  \<open>animate\<close>, given the value of \<open>clock.getDelta()\<close>. In the GameOver and Start states
  only the presentation changes.
\<close>

definition animate :: "(nat \<Rightarrow> real) \<Rightarrow> real \<Rightarrow> game \<Rightarrow> error + game" where
  "animate rnd clockDelta gd =
     (let delta = min clockDelta 0.1
      in if gameStateRef gd = PLAYING then
           (case moveLateral delta (updateShield delta (updateSpeed delta gd)) of
              Inl e \<Rightarrow> Inl e
            | Inr gd1 \<Rightarrow>
                (let gd2 = moveVertical delta gd1;
                     moveZ = speed gd2 * delta
                 in case worldMove rnd moveZ gd2 of
                      Inl e \<Rightarrow> Inl e
                    | Inr gd3 \<Rightarrow> Inr (updateObjects moveZ gd3)))
         else Inr gd)"

subsection \<open>Projections and sample inputs used in the proofs\<close>

text \<open>
  The fields that neither the track generator nor the collision loop writes, and the
  fields of the vertical motion.
\<close>

definition kinematics ::
  "game \<Rightarrow> (real \<times> real \<times> real \<times> bool \<times> bool \<times> real) \<times> (int \<times> real \<times> real \<times> int)" where
  "kinematics gd =
     ((xPos gd, yPos gd, velocityY gd, isJumping gd, isSliding gd, slideTimer gd),
      (lane gd, speed gd, score gd, score_hud gd))"

definition vertical :: "game \<Rightarrow> real \<times> real \<times> bool \<times> bool \<times> real" where
  "vertical gd = (yPos gd, velocityY gd, isJumping gd, isSliding gd, slideTimer gd)"

text \<open>
  A sequence of draws under which no obstacle and no pickup is placed (every draw is 0.9),
  and the world built with it right after the start command.
\<close>

definition noPickups :: "nat \<Rightarrow> real" where
  "noPickups n = 0.9"

definition freshWorld :: game where
  "freshWorld = initWorld noPickups (startGame initialGame)"

text \<open>
  The segment positions are spaced when each one is exactly one segment length (20) below
  its predecessor.
\<close>

fun spaced :: "real list \<Rightarrow> bool" where
  "spaced (a # b # zs) \<longleftrightarrow> b = a - 20 \<and> spaced (b # zs)"
| "spaced zs \<longleftrightarrow> True"

text \<open>
  The value of the conditional expression of line 481 as a function of the two draws it
  may make (\<open>pickSubtype\<close> makes the second one only when it is needed).
\<close>

definition subtypeOfDraws :: "real \<Rightarrow> real \<Rightarrow> ObstacleType" where
  "subtypeOfDraws u2 u3 = (if u2 > 0.6 then FULL else if u3 > 0.5 then JUMP else SLIDE)"

text \<open>
  Frequencies of an event over equally spaced draws: \<open>drawFreq E N\<close> is the fraction
  of the draws \<open>0, 1/N, \<dots>, (N-1)/N\<close> on which \<open>E\<close> holds, \<open>gridFreq E N\<close> the
  fraction of the \<open>N * N\<close> pairs of such draws. For an event that is an interval (a
  rectangle) of draws, the limit for growing \<open>N\<close> is its length (area), that is, its
  probability under independent uniform draws from \<open>[0, 1)\<close>.
\<close>

definition drawFreq :: "(real \<Rightarrow> bool) \<Rightarrow> nat \<Rightarrow> real" where
  "drawFreq E N = real (length (filter (\<lambda>i. E (real i / real N)) [0..<N])) / real N"

definition gridFreq :: "(real \<Rightarrow> real \<Rightarrow> bool) \<Rightarrow> nat \<Rightarrow> real" where
  "gridFreq E N =
     real (length (filter (\<lambda>(i, j). E (real i / real N) (real j / real N))
                    (List.product [0..<N] [0..<N])))
     / (real N * real N)"

text \<open>Draws that select the single-obstacle layout: a wall in the centre lane, no pickup.\<close>

definition singleDraws :: "nat \<Rightarrow> real" where
  "singleDraws n = (if n = 0 then 0.2 else if n = 1 then 0.4 else if n = 2 then 0.7 else 0.9)"

text \<open>
  Sample objects in the centre lane, and sample Playing states: a wall one unit ahead, a
  shielded player facing two walls, a player in mid-jump, and a wall, a coin and a log
  that reach the player in the same tick.
\<close>

definition wallAt :: "int \<Rightarrow> real \<Rightarrow> GameObj" where
  "wallAt i z = \<lparr> obj_id = i, obj_type = OBSTACLE, subtype = Some FULL, obj_lane = 1,
                  obj_z = z, active = True \<rparr>"

definition gateAt :: "int \<Rightarrow> real \<Rightarrow> GameObj" where
  "gateAt i z = \<lparr> obj_id = i, obj_type = OBSTACLE, subtype = Some SLIDE, obj_lane = 1,
                  obj_z = z, active = True \<rparr>"

definition logAt :: "int \<Rightarrow> real \<Rightarrow> GameObj" where
  "logAt i z = \<lparr> obj_id = i, obj_type = OBSTACLE, subtype = Some JUMP, obj_lane = 1,
                 obj_z = z, active = True \<rparr>"

definition coinAt :: "int \<Rightarrow> real \<Rightarrow> GameObj" where
  "coinAt i z = \<lparr> obj_id = i, obj_type = COIN, subtype = None, obj_lane = 1,
                  obj_z = z, active = True \<rparr>"

definition wallAhead :: game where
  "wallAhead =
     freshWorld\<lparr> objects := [wallAt 0 (- 1)], scene := {0}, objIdCounter := 1 \<rparr>"

definition shieldedTwoWalls :: game where
  "shieldedTwoWalls =
     freshWorld\<lparr> shieldTimer := 3, hasShield := True,
                 objects := [wallAt 0 (- 1), wallAt 1 (- 1)], scene := {0, 1},
                 objIdCounter := 2 \<rparr>"

definition airborne :: game where
  "airborne = freshWorld\<lparr> isJumping := True, yPos := 4, velocityY := 1 \<rparr>"

definition wallCoinLog :: game where
  "wallCoinLog =
     freshWorld\<lparr> objects := [wallAt 0 (- 1), coinAt 1 (- 1), logAt 2 (- 1)],
                 scene := {0, 1, 2}, objIdCounter := 3 \<rparr>"

declare initWorld_loop.simps [simp del] extendSegments.simps [simp del]

section \<open>Properties\<close>

subsection \<open>What a tick leaves alone\<close>

lemma kinematics_spawnObject [simp]:
  "kinematics (spawnObject ty l z sub gd) = kinematics gd"
  by (simp add: kinematics_def spawnObject_def)

lemma kinematics_Math_random [simp]:
  "kinematics (snd (Math_random rnd gd)) = kinematics gd"
  by (simp add: kinematics_def Math_random_def)

lemma kinematics_pickSubtype [simp]: "kinematics (snd (pickSubtype rnd gd)) = kinematics gd"
  by (simp add: pickSubtype_def Let_def split_beta)

lemma kinematics_spawnSingle [simp]: "kinematics (spawnSingle rnd z gd) = kinematics gd"
  by (simp add: spawnSingle_def Let_def split_beta)

lemma kinematics_spawnSafeLane [simp]: "kinematics (spawnSafeLane rnd z gd) = kinematics gd"
  by (simp add: spawnSafeLane_def Let_def split_beta)

lemma kinematics_spawnAllJump [simp]: "kinematics (spawnAllJump z gd) = kinematics gd"
  by (simp add: spawnAllJump_def)

lemma kinematics_spawnPickup [simp]: "kinematics (spawnPickup rnd z gd) = kinematics gd"
  by (simp add: spawnPickup_def Let_def split_beta)

lemma kinematics_segments_update [simp]: "kinematics (gd\<lparr>segments := sg\<rparr>) = kinematics gd"
  by (simp add: kinematics_def)

lemma kinematics_spawnSegment [simp]: "kinematics (spawnSegment rnd z gd) = kinematics gd"
  by (simp add: spawnSegment_def Let_def split_beta)

lemma kinematics_extendSegments:
  "extendSegments rnd gd = Inr gd' \<Longrightarrow> kinematics gd' = kinematics gd"
proof (induction rnd gd rule: extendSegments.induct)
  case (1 rnd gd)
  show ?case
  proof (cases "segments gd \<noteq> [] \<and> - 160 < last (segments gd)")
    case True
    with "1.prems" have "extendSegments rnd (spawnSegment rnd (last (segments gd) - 20) gd) = Inr gd'"
      by (subst (asm) extendSegments.simps) simp
    with True "1.IH" show ?thesis by simp
  next
    case False
    with "1.prems" show ?thesis
      by (subst (asm) extendSegments.simps) (auto split: if_splits)
  qed
qed

lemma kinematics_worldMove:
  "worldMove rnd moveZ gd = Inr gd' \<Longrightarrow> kinematics gd' = kinematics gd"
  by (auto simp: worldMove_def Let_def split: list.splits if_splits
      dest!: kinematics_extendSegments)

lemma kinematics_collide [simp]: "kinematics (snd (collide obj gd)) = kinematics gd"
  by (simp add: collide_def kinematics_def Let_def split_beta split: ObjType.splits)

lemma kinematics_objectStep [simp]:
  "kinematics (fst (objectStep moveZ obj acc)) = kinematics (fst acc)"
proof -
  have "kinematics (fst acc\<lparr>scene := sc\<rparr>) = kinematics (fst acc)" for sc
    by (simp add: kinematics_def)
  then show ?thesis
    by (simp add: objectStep_def Let_def split_beta)
qed

lemma kinematics_fold_objectStep:
  "kinematics (fst (fold (objectStep moveZ) objs acc)) = kinematics (fst acc)"
  by (induction objs arbitrary: acc) simp_all

lemma kinematics_updateObjects [simp]:
  "kinematics (updateObjects moveZ gd) = kinematics gd"
proof -
  have "kinematics (g\<lparr>objects := os\<rparr>) = kinematics g" for g os
    by (simp add: kinematics_def)
  then show ?thesis
    using kinematics_fold_objectStep [of moveZ "objects gd" "(gd, [])"]
    by (simp add: updateObjects_def split_beta)
qed

text \<open>The player's part of a Playing tick, when the tick completes.\<close>

lemma animate_kinematics:
  assumes "gameStateRef gd = PLAYING" and "animate rnd clockDelta gd = Inr gd'"
  shows "\<exists>gd1. moveLateral (min clockDelta 0.1)
                 (updateShield (min clockDelta 0.1) (updateSpeed (min clockDelta 0.1) gd)) = Inr gd1
           \<and> kinematics gd' = kinematics (moveVertical (min clockDelta 0.1) gd1)"
  using assms
  by (auto simp: animate_def Let_def split: sum.splits dest!: kinematics_worldMove)


lemma initWorld_segments:
  "segments (initWorld rnd st) = [80, 60, 40, 20, 0, - 20, - 40, - 60, - 80, - 100, - 120, - 140]"
  by (simp add: initWorld_def initWorld_loop.simps Let_def)



subsection \<open>Lane commands\<close>

lemma handleKey_lane_range:
  "0 \<le> lane st \<Longrightarrow> lane st \<le> 2 \<Longrightarrow> 0 \<le> lane (handleKey k st) \<and> lane (handleKey k st) \<le> 2"
  by (simp add: handleKey_def)

lemma fold_handleKey_lane_range:
  "0 \<le> lane st \<Longrightarrow> lane st \<le> 2 \<Longrightarrow>
   0 \<le> lane (fold handleKey ks st) \<and> lane (fold handleKey ks st) \<le> 2"
proof (induction ks arbitrary: st)
  case Nil
  then show ?case by simp
next
  case (Cons k ks)
  from handleKey_lane_range [OF Cons.prems] Cons.IH show ?case by simp
qed

text \<open>
  C7. Starting from a lane index in \<open>[0, 2]\<close>, every sequence of key commands (lane-left
  and lane-right among them) leaves the lane index in \<open>[0, 2]\<close>; lane-left at index 0
  and lane-right at index 2 return the state unchanged.
\<close>

theorem lane_bounds:
  assumes "0 \<le> lane st" and "lane st \<le> 2"
    and "lane sl = 0" and "lane sr = 2"
  shows "0 \<le> lane (fold handleKey ks st) \<and> lane (fold handleKey ks st) \<le> 2
         \<and> handleKey ''ArrowLeft'' sl = sl \<and> handleKey ''ArrowRight'' sr = sr"
  using fold_handleKey_lane_range [OF assms(1,2)] assms(3,4)
  by (simp add: handleKey_def)

theorem lane_bounds_witness:
  "lane (startGame initialGame) = 1
   \<and> lane (fold handleKey [''ArrowLeft'', ''ArrowLeft'', ''ArrowLeft'', ''ArrowRight'']
            (startGame initialGame)) = 1
   \<and> 0 \<le> lane (fold handleKey [''ArrowRight'', ''ArrowRight'', ''ArrowRight'']
            (startGame initialGame))
   \<and> lane (fold handleKey [''ArrowRight'', ''ArrowRight'', ''ArrowRight'']
            (startGame initialGame)) \<le> 2
   \<and> handleKey ''ArrowLeft'' ((startGame initialGame)\<lparr>lane := 0\<rparr>)
       = (startGame initialGame)\<lparr>lane := 0\<rparr>
   \<and> handleKey ''ArrowRight'' ((startGame initialGame)\<lparr>lane := 2\<rparr>)
       = (startGame initialGame)\<lparr>lane := 2\<rparr>"
  using lane_bounds [of "startGame initialGame" "(startGame initialGame)\<lparr>lane := 0\<rparr>"
      "(startGame initialGame)\<lparr>lane := 2\<rparr>" "[''ArrowRight'', ''ArrowRight'', ''ArrowRight'']"]
  by (simp add: handleKey_def startGame_def initialGame_def)

subsection \<open>Fast fall\<close>

text \<open>
  C10. While airborne in the Playing state, the duck command sets the vertical velocity
  to the fixed value \<open>- GRAVITY * 0.5\<close> whatever it was before and changes nothing else,
  so issuing it twice gives the same state as issuing it once.
\<close>

theorem fast_fall_idempotent:
  assumes "gameStateRef st = PLAYING" and "isJumping st"
  shows "handleKey ''ArrowDown'' st = st\<lparr>velocityY := - GRAVITY * 0.5\<rparr>
         \<and> handleKey ''ArrowDown'' (handleKey ''ArrowDown'' st) = handleKey ''ArrowDown'' st"
  using assms by (simp add: handleKey_def)

theorem fast_fall_idempotent_witness:
  "gameStateRef (handleKey ''ArrowUp'' (startGame initialGame)) = PLAYING
   \<and> isJumping (handleKey ''ArrowUp'' (startGame initialGame))
   \<and> velocityY (handleKey ''ArrowUp'' (startGame initialGame)) = 22
   \<and> velocityY (handleKey ''ArrowDown'' (handleKey ''ArrowUp'' (startGame initialGame))) = - 35
   \<and> handleKey ''ArrowDown'' (handleKey ''ArrowDown'' (handleKey ''ArrowUp'' (startGame initialGame)))
       = handleKey ''ArrowDown'' (handleKey ''ArrowUp'' (startGame initialGame))"
  using fast_fall_idempotent [of "handleKey ''ArrowUp'' (startGame initialGame)"]
  by (simp add: handleKey_def startGame_def initialGame_def tuning_defs)

subsection \<open>Player motion within a tick\<close>

lemma vertical_updateSpeed [simp]: "vertical (updateSpeed dt gd) = vertical gd"
  by (simp add: vertical_def updateSpeed_def Let_def)

lemma vertical_updateShield [simp]: "vertical (updateShield dt gd) = vertical gd"
  by (simp add: vertical_def updateShield_def Let_def)

lemma lateral_updateSpeed [simp]:
  "xPos (updateSpeed dt gd) = xPos gd" "lane (updateSpeed dt gd) = lane gd"
  by (simp_all add: updateSpeed_def Let_def)

lemma lateral_updateShield [simp]:
  "xPos (updateShield dt gd) = xPos gd" "lane (updateShield dt gd) = lane gd"
  by (simp_all add: updateShield_def Let_def)

lemma lateral_moveVertical [simp]:
  "xPos (moveVertical dt gd) = xPos gd" "lane (moveVertical dt gd) = lane gd"
  by (simp_all add: moveVertical_def Let_def)

lemma moveLateral_Inr:
  "moveLateral dt gd = Inr gd1 \<longleftrightarrow>
   (\<exists>targetX. LANES (lane gd) = Some targetX
      \<and> gd1 = gd\<lparr>xPos := lerp (xPos gd) targetX (dt * LANE_SPEED)\<rparr>)"
  by (auto simp: moveLateral_def split: option.splits)

lemma vertical_xPos_update [simp]: "vertical (gd\<lparr>xPos := x\<rparr>) = vertical gd"
  by (simp add: vertical_def)

lemma vertical_moveVertical_cong:
  "vertical a = vertical b \<Longrightarrow> vertical (moveVertical dt a) = vertical (moveVertical dt b)"
  by (simp add: vertical_def moveVertical_def Let_def)

lemma vertical_of_kinematics:
  "kinematics a = kinematics b \<Longrightarrow> vertical a = vertical b"
  by (simp add: kinematics_def vertical_def)

lemma lateral_of_kinematics:
  "kinematics a = kinematics b \<Longrightarrow> xPos a = xPos b \<and> lane a = lane b"
  by (simp add: kinematics_def)

text \<open>What a completed Playing tick does to the player's position.\<close>

lemma animate_player:
  assumes "gameStateRef gd = PLAYING" and "animate rnd clockDelta gd = Inr gd'"
  shows "\<exists>targetX. LANES (lane gd) = Some targetX
           \<and> xPos gd' = lerp (xPos gd) targetX (min clockDelta 0.1 * LANE_SPEED)
           \<and> lane gd' = lane gd
           \<and> vertical gd' = vertical (moveVertical (min clockDelta 0.1) gd)"
proof -
  define dt where "dt = min clockDelta 0.1"
  from animate_kinematics [OF assms] obtain gd1 where
    lat: "moveLateral dt (updateShield dt (updateSpeed dt gd)) = Inr gd1"
    and kin: "kinematics gd' = kinematics (moveVertical dt gd1)"
    unfolding dt_def by blast
  from lat obtain targetX where tx: "LANES (lane gd) = Some targetX"
    and gd1: "gd1 = (updateShield dt (updateSpeed dt gd))\<lparr>xPos := lerp (xPos gd) targetX (dt * LANE_SPEED)\<rparr>"
    by (auto simp: moveLateral_Inr)
  from gd1 have "vertical gd1 = vertical gd" by simp
  then have v: "vertical (moveVertical dt gd1) = vertical (moveVertical dt gd)"
    by (rule vertical_moveVertical_cong)
  from gd1 have "xPos gd1 = lerp (xPos gd) targetX (dt * LANE_SPEED)" "lane gd1 = lane gd"
    by simp_all
  with lateral_of_kinematics [OF kin] vertical_of_kinematics [OF kin] v tx
  show ?thesis unfolding dt_def by auto
qed

lemma moveVertical_jumping:
  assumes "isJumping gd"
  shows "vertical (moveVertical dt gd) =
     (if yPos gd + velocityY gd * dt \<le> 0 then (0, 0, False, isSliding gd, slideTimer gd)
      else (yPos gd + velocityY gd * dt, velocityY gd - GRAVITY * dt, True,
            isSliding gd, slideTimer gd))"
  using assms by (simp add: moveVertical_def vertical_def Let_def)

text \<open>Unfolding sets for evaluating the world generator and a tick on sample inputs.\<close>

lemmas freshWorld_eval =
  freshWorld_def initWorld_def initWorld_loop.simps Let_def startGame_def initialGame_def
  handleKey_def spawnSegment_def Math_random_def noPickups_def spawnPickup_def

lemmas animate_eval =
  animate_def Let_def updateSpeed_def updateShield_def moveLateral_def LANES_def lerp_def
  moveVertical_def tuning_defs worldMove_def spawnSegment_def Math_random_def noPickups_def
  spawnPickup_def extendSegments.simps updateObjects_def

text \<open>
  C1 (as amended). While jumping, a completed Playing tick with clamped time step \<open>dt\<close>
  first advances the vertical position by the velocity held before the tick,
  \<open>y = yPos + velocityY * dt\<close>, and then lowers the velocity, \<open>v = velocityY - GRAVITY * dt\<close>;
  when \<open>y \<le> 0\<close> the position is set to 0 and the jumping flag and the velocity are
  cleared.
\<close>

theorem jump_integration:
  assumes "gameStateRef gd = PLAYING" and "isJumping gd"
    and "animate rnd clockDelta gd = Inr gd'"
  shows "(let dt = min clockDelta 0.1;
              y = yPos gd + velocityY gd * dt;
              v = velocityY gd - GRAVITY * dt
          in if y \<le> 0 then yPos gd' = 0 \<and> velocityY gd' = 0 \<and> \<not> isJumping gd'
             else yPos gd' = y \<and> velocityY gd' = v \<and> isJumping gd')"
proof -
  from animate_player [OF assms(1,3)]
  have "vertical gd' = vertical (moveVertical (min clockDelta 0.1) gd)" by blast
  with moveVertical_jumping [OF assms(2), of "min clockDelta 0.1"]
  show ?thesis by (simp add: vertical_def Let_def split: if_splits)
qed


theorem jump_integration_witness:
  "gameStateRef (handleKey ''ArrowUp'' freshWorld) = PLAYING
   \<and> isJumping (handleKey ''ArrowUp'' freshWorld)
   \<and> yPos (handleKey ''ArrowUp'' freshWorld) = 0
   \<and> velocityY (handleKey ''ArrowUp'' freshWorld) = 22
   \<and> \<not> isl (animate noPickups (1/10) (handleKey ''ArrowUp'' freshWorld))
   \<and> yPos (projr (animate noPickups (1/10) (handleKey ''ArrowUp'' freshWorld))) = 11/5
   \<and> velocityY (projr (animate noPickups (1/10) (handleKey ''ArrowUp'' freshWorld))) = 15
   \<and> isJumping (projr (animate noPickups (1/10) (handleKey ''ArrowUp'' freshWorld)))"
proof -
  let ?J = "handleKey ''ArrowUp'' freshWorld"
  have start: "gameStateRef ?J = PLAYING" "isJumping ?J" "yPos ?J = 0" "velocityY ?J = 22"
    by (simp_all add: freshWorld_eval tuning_defs)
  have "\<not> isl (animate noPickups (1/10) ?J)"
    by (simp add: freshWorld_eval) (simp add: animate_eval)
  then have run: "animate noPickups (1/10) ?J = Inr (projr (animate noPickups (1/10) ?J))"
    by (cases "animate noPickups (1/10) ?J") simp_all
  from jump_integration [OF start(1,2) run] start \<open>\<not> isl (animate noPickups (1/10) ?J)\<close>
  show ?thesis by (simp add: Let_def GRAVITY_def)
qed

text \<open>
  The order stated in C1 (velocity first, then position with the new velocity) fails on
  the first tick of a jump from the ground: the velocity becomes \<open>22 - 70 / 10 = 15\<close>,
  but the position becomes \<open>22 / 10\<close>, not \<open>15 / 10\<close>.
\<close>

theorem jump_integration_order_counterexample:
  "\<not> isl (animate noPickups (1/10) (handleKey ''ArrowUp'' freshWorld))
   \<and> velocityY (projr (animate noPickups (1/10) (handleKey ''ArrowUp'' freshWorld)))
       = velocityY (handleKey ''ArrowUp'' freshWorld) - GRAVITY * (1/10)
   \<and> yPos (projr (animate noPickups (1/10) (handleKey ''ArrowUp'' freshWorld)))
       \<noteq> yPos (handleKey ''ArrowUp'' freshWorld)
           + velocityY (projr (animate noPickups (1/10) (handleKey ''ArrowUp'' freshWorld))) * (1/10)"
  by (simp add: freshWorld_eval) (simp add: animate_eval)

lemma lerp_distance:
  "lerp x y t - y = (1 - t) * (x - y)"
  by (simp add: lerp_def algebra_simps)

lemma lerp_no_further:
  assumes "0 \<le> t" and "t \<le> 2"
  shows "\<bar>lerp x y t - y\<bar> \<le> \<bar>x - y\<bar>"
proof -
  from assms have "\<bar>1 - t\<bar> \<le> 1" by (simp add: abs_le_iff)
  then have "\<bar>1 - t\<bar> * \<bar>x - y\<bar> \<le> 1 * \<bar>x - y\<bar>"
    by (intro mult_right_mono) simp_all
  then show ?thesis by (simp add: lerp_distance abs_mult)
qed

lemma lerp_between:
  assumes "0 \<le> t" and "t \<le> 1"
  shows "x \<le> y \<Longrightarrow> x \<le> lerp x y t \<and> lerp x y t \<le> y"
    and "y \<le> x \<Longrightarrow> y \<le> lerp x y t \<and> lerp x y t \<le> x"
proof -
  have eq1: "lerp x y t = x + t * (y - x)" and eq2: "lerp x y t = y - (1 - t) * (y - x)"
    by (simp_all add: lerp_def algebra_simps)
  show "x \<le> lerp x y t \<and> lerp x y t \<le> y" if "x \<le> y"
  proof -
    from that assms have "0 \<le> t * (y - x)" and "0 \<le> (1 - t) * (y - x)" by simp_all
    then show ?thesis using eq1 eq2 by linarith
  qed
  show "y \<le> lerp x y t \<and> lerp x y t \<le> x" if "y \<le> x"
  proof -
    from that assms have "t * (y - x) \<le> 0" and "(1 - t) * (y - x) \<le> 0"
      by (simp_all add: mult_nonneg_nonpos)
    then show ?thesis using eq1 eq2 by linarith
  qed
qed

text \<open>
  C2 (as amended). In a completed Playing tick whose clock delta is between 0 and 0.08,
  the distance of the lateral position to the target lane's offset does not grow; when
  the delta is at most 0.04 the new position also lies between the old position and the
  target, so the target is not passed.
\<close>

theorem lateral_approach:
  assumes "gameStateRef gd = PLAYING" and "animate rnd clockDelta gd = Inr gd'"
    and "LANES (lane gd) = Some targetX"
    and "0 \<le> clockDelta" and "clockDelta \<le> 0.08"
  shows "\<bar>xPos gd' - targetX\<bar> \<le> \<bar>xPos gd - targetX\<bar>
         \<and> (clockDelta \<le> 0.04 \<longrightarrow>
              (xPos gd \<le> targetX \<longrightarrow> xPos gd \<le> xPos gd' \<and> xPos gd' \<le> targetX)
              \<and> (targetX \<le> xPos gd \<longrightarrow> targetX \<le> xPos gd' \<and> xPos gd' \<le> xPos gd))"
proof -
  from assms(4,5) have dt: "min clockDelta 0.1 = clockDelta" by simp
  from animate_player [OF assms(1,2)] assms(3) dt
  have x': "xPos gd' = lerp (xPos gd) targetX (clockDelta * LANE_SPEED)" by auto
  from assms(4,5) have t: "0 \<le> clockDelta * LANE_SPEED" "clockDelta * LANE_SPEED \<le> 2"
    by (simp_all add: LANE_SPEED_def)
  have "clockDelta * LANE_SPEED \<le> 1" if "clockDelta \<le> 0.04"
    using that by (simp add: LANE_SPEED_def)
  with lerp_no_further [OF t] lerp_between [OF t(1)] x' show ?thesis by simp
qed

theorem lateral_approach_witness:
  "gameStateRef (handleKey ''ArrowRight'' freshWorld) = PLAYING
   \<and> LANES (lane (handleKey ''ArrowRight'' freshWorld)) = Some (5/2)
   \<and> xPos (handleKey ''ArrowRight'' freshWorld) = 0
   \<and> \<not> isl (animate noPickups (3/100) (handleKey ''ArrowRight'' freshWorld))
   \<and> xPos (projr (animate noPickups (3/100) (handleKey ''ArrowRight'' freshWorld))) = 15/8
   \<and> \<bar>xPos (projr (animate noPickups (3/100) (handleKey ''ArrowRight'' freshWorld))) - 5/2\<bar>
       \<le> \<bar>xPos (handleKey ''ArrowRight'' freshWorld) - 5/2\<bar>
   \<and> xPos (projr (animate noPickups (3/100) (handleKey ''ArrowRight'' freshWorld))) \<le> 5/2"
proof -
  let ?R = "handleKey ''ArrowRight'' freshWorld"
  have start: "gameStateRef ?R = PLAYING" "LANES (lane ?R) = Some (5/2)" "xPos ?R = 0"
    by (simp_all add: freshWorld_eval LANES_def)
  have ok: "\<not> isl (animate noPickups (3/100) ?R)"
    and x: "xPos (projr (animate noPickups (3/100) ?R)) = 15/8"
    by (simp add: freshWorld_eval, simp add: animate_eval)+
  from ok have run: "animate noPickups (3/100) ?R = Inr (projr (animate noPickups (3/100) ?R))"
    by (cases "animate noPickups (3/100) ?R") simp_all
  from lateral_approach [OF start(1) run start(2)] start ok x
  show ?thesis by simp
qed

text \<open>
  C2 as stated fails at the clamped maximum \<open>dt = 0.1\<close>: the interpolation factor is
  \<open>2.5\<close>, and from \<open>xPos = 0\<close> with the right lane as target (\<open>2.5\<close>) the tick
  ends at \<open>6.25\<close>, further from the target than before.
\<close>

theorem lateral_overshoot_counterexample:
  "gameStateRef (handleKey ''ArrowRight'' freshWorld) = PLAYING
   \<and> LANES (lane (handleKey ''ArrowRight'' freshWorld)) = Some (5/2)
   \<and> \<not> isl (animate noPickups (1/10) (handleKey ''ArrowRight'' freshWorld))
   \<and> xPos (projr (animate noPickups (1/10) (handleKey ''ArrowRight'' freshWorld))) = 25/4
   \<and> \<bar>xPos (projr (animate noPickups (1/10) (handleKey ''ArrowRight'' freshWorld))) - 5/2\<bar>
       > \<bar>xPos (handleKey ''ArrowRight'' freshWorld) - 5/2\<bar>"
  by (simp add: freshWorld_eval LANES_def) (simp add: animate_eval)


lemmas collision_eval = objectStep_def collide_def obstacleHit_def inHitWindow_def aligned_def

subsection \<open>The start command after a death in mid-air\<close>

text \<open>
  C3. The start command is claimed to reset the vertical position and the pose flags
  with the rest. Here the player jumps, runs into a wall one unit ahead while airborne
  (the tick ends in GameOver), and the start command is issued: the new run begins with
  the jumping flag still set, \<open>yPos = 1.1\<close> and \<open>velocityY = 18.5\<close>.
\<close>

theorem startGame_keeps_jump:
  "\<not> isl (animate noPickups (1/20) (handleKey ''ArrowUp'' wallAhead))
   \<and> gameStateRef (projr (animate noPickups (1/20) (handleKey ''ArrowUp'' wallAhead))) = GAMEOVER
   \<and> deathReason (projr (animate noPickups (1/20) (handleKey ''ArrowUp'' wallAhead)))
       = ''SMASHED INTO WALL''
   \<and> gameStateRef (startGame (projr (animate noPickups (1/20) (handleKey ''ArrowUp'' wallAhead))))
       = PLAYING
   \<and> isJumping (startGame (projr (animate noPickups (1/20) (handleKey ''ArrowUp'' wallAhead))))
   \<and> yPos (startGame (projr (animate noPickups (1/20) (handleKey ''ArrowUp'' wallAhead)))) = 11/10
   \<and> velocityY (startGame (projr (animate noPickups (1/20) (handleKey ''ArrowUp'' wallAhead))))
       = 37/2"
  by (simp add: wallAhead_def wallAt_def freshWorld_eval)
    (simp add: animate_eval collision_eval startGame_def)

subsection \<open>Collisions\<close>

lemma objectStep_shielded:
  assumes "0 < shieldTimer (fst acc)"
  shows "gameStateRef (fst (objectStep moveZ obj acc)) = gameStateRef (fst acc)
         \<and> gameState (fst (objectStep moveZ obj acc)) = gameState (fst acc)
         \<and> deathReason (fst (objectStep moveZ obj acc)) = deathReason (fst acc)
         \<and> 0 < shieldTimer (fst (objectStep moveZ obj acc))"
  using assms
  by (simp add: objectStep_def collide_def Let_def split_beta SHIELD_DURATION_def
      split: ObjType.splits)

lemma fold_objectStep_shielded:
  assumes "0 < shieldTimer (fst acc)"
  shows "gameStateRef (fst (fold (objectStep moveZ) objs acc)) = gameStateRef (fst acc)
         \<and> gameState (fst (fold (objectStep moveZ) objs acc)) = gameState (fst acc)
         \<and> deathReason (fst (fold (objectStep moveZ) objs acc)) = deathReason (fst acc)
         \<and> 0 < shieldTimer (fst (fold (objectStep moveZ) objs acc))"
  using assms
proof (induction objs arbitrary: acc)
  case Nil
  then show ?case by simp
next
  case (Cons obj objs)
  from objectStep_shielded [OF Cons.prems, of moveZ obj]
    Cons.IH [of "objectStep moveZ obj acc"]
  show ?case by simp
qed

lemma updateObjects_shielded:
  assumes "0 < shieldTimer gd"
  shows "gameStateRef (updateObjects moveZ gd) = gameStateRef gd
         \<and> gameState (updateObjects moveZ gd) = gameState gd
         \<and> deathReason (updateObjects moveZ gd) = deathReason gd
         \<and> 0 < shieldTimer (updateObjects moveZ gd)"
  using fold_objectStep_shielded [of "(gd, [])" moveZ "objects gd"] assms
  by (simp add: updateObjects_def split_beta)

text \<open>
  C5. A hit of an aligned obstacle resolved while the shield timer is positive, in any
  state (so also after earlier absorptions), deactivates the obstacle and removes its mesh
  from the scene, plays the blocked cue, and changes neither the game state nor the shield
  timer; the whole loop over the objects, started with a positive shield timer, ends in the
  same game state with the timer still positive.
\<close>

theorem shield_absorbs:
  assumes "0 < shieldTimer gd"
    and "active obj" and "obj_type obj = OBSTACLE"
    and "inHitWindow (obj\<lparr>obj_z := obj_z obj + moveZ\<rparr>)"
    and "aligned (obj\<lparr>obj_z := obj_z obj + moveZ\<rparr>) gd"
    and "fst (obstacleHit (obj\<lparr>obj_z := obj_z obj + moveZ\<rparr>) gd)"
  shows "objectStep moveZ obj (gd, nextObjects)
           = (gd\<lparr>scene := scene gd - {obj_id obj}, sounds := sounds gd @ [PlayCrash]\<rparr>,
              nextObjects @ [obj\<lparr>obj_z := obj_z obj + moveZ, active := False\<rparr>])
         \<and> gameStateRef (fst (objectStep moveZ obj (gd, nextObjects))) = gameStateRef gd
         \<and> gameState (fst (objectStep moveZ obj (gd, nextObjects))) = gameState gd
         \<and> shieldTimer (fst (objectStep moveZ obj (gd, nextObjects))) = shieldTimer gd
         \<and> obj_id obj \<notin> scene (fst (objectStep moveZ obj (gd, nextObjects)))
         \<and> gameStateRef (updateObjects moveZ gd) = gameStateRef gd
         \<and> 0 < shieldTimer (updateObjects moveZ gd)"
proof -
  from assms(4) have "\<not> obj_z obj + moveZ > 25"
    by (simp add: inHitWindow_def HIT_Z_MAX_def)
  with assms(2-6)
  have step: "objectStep moveZ obj (gd, nextObjects)
           = (gd\<lparr>scene := scene gd - {obj_id obj}, sounds := sounds gd @ [PlayCrash]\<rparr>,
              nextObjects @ [obj\<lparr>obj_z := obj_z obj + moveZ, active := False\<rparr>])"
    using assms(1) by (simp add: objectStep_def collide_def Let_def split_beta)
  from updateObjects_shielded [OF assms(1), of moveZ] step show ?thesis by simp
qed

lemmas fixture_defs = wallAt_def gateAt_def logAt_def coinAt_def

theorem shield_absorbs_witness:
  "0 < shieldTimer shieldedTwoWalls
   \<and> active (wallAt 0 (- 1)) \<and> obj_type (wallAt 0 (- 1)) = OBSTACLE
   \<and> inHitWindow ((wallAt 0 (- 1))\<lparr>obj_z := obj_z (wallAt 0 (- 1)) + 1\<rparr>)
   \<and> aligned ((wallAt 0 (- 1))\<lparr>obj_z := obj_z (wallAt 0 (- 1)) + 1\<rparr>) shieldedTwoWalls
   \<and> fst (obstacleHit ((wallAt 0 (- 1))\<lparr>obj_z := obj_z (wallAt 0 (- 1)) + 1\<rparr>) shieldedTwoWalls)
   \<and> snd (objectStep 1 (wallAt 0 (- 1)) (shieldedTwoWalls, []))
       = [(wallAt 0 0)\<lparr>active := False\<rparr>]
   \<and> shieldTimer (fst (objectStep 1 (wallAt 0 (- 1)) (shieldedTwoWalls, []))) = 3
   \<and> scene (fst (objectStep 1 (wallAt 0 (- 1)) (shieldedTwoWalls, []))) = {1}
   \<and> gameStateRef (updateObjects 1 shieldedTwoWalls) = PLAYING
   \<and> shieldTimer (updateObjects 1 shieldedTwoWalls) = 3
   \<and> objects (updateObjects 1 shieldedTwoWalls)
       = [(wallAt 0 0)\<lparr>active := False\<rparr>, (wallAt 1 0)\<lparr>active := False\<rparr>]"
proof -
  have hyps: "0 < shieldTimer shieldedTwoWalls" "active (wallAt 0 (- 1))"
    "obj_type (wallAt 0 (- 1)) = OBSTACLE"
    "inHitWindow ((wallAt 0 (- 1))\<lparr>obj_z := obj_z (wallAt 0 (- 1)) + 1\<rparr>)"
    "aligned ((wallAt 0 (- 1))\<lparr>obj_z := obj_z (wallAt 0 (- 1)) + 1\<rparr>) shieldedTwoWalls"
    "fst (obstacleHit ((wallAt 0 (- 1))\<lparr>obj_z := obj_z (wallAt 0 (- 1)) + 1\<rparr>) shieldedTwoWalls)"
    by (simp_all add: shieldedTwoWalls_def fixture_defs freshWorld_eval inHitWindow_def
        aligned_def obstacleHit_def LANES_def tuning_defs)
  have loop: "shieldTimer (updateObjects 1 shieldedTwoWalls) = 3"
    "objects (updateObjects 1 shieldedTwoWalls)
       = [(wallAt 0 0)\<lparr>active := False\<rparr>, (wallAt 1 0)\<lparr>active := False\<rparr>]"
    by (simp_all add: shieldedTwoWalls_def fixture_defs freshWorld_eval updateObjects_def
        collision_eval LANES_def tuning_defs)
  have start: "gameStateRef shieldedTwoWalls = PLAYING" "shieldTimer shieldedTwoWalls = 3"
    "scene shieldedTwoWalls = {0, 1}" "obj_id (wallAt 0 (- 1)) = 0"
    by (simp_all add: shieldedTwoWalls_def fixture_defs freshWorld_eval)
  have moved: "(wallAt 0 (- 1))\<lparr>obj_z := obj_z (wallAt 0 (- 1)) + 1, active := False\<rparr>
      = (wallAt 0 0)\<lparr>active := False\<rparr>"
    by (simp add: fixture_defs)
  from shield_absorbs [OF hyps, of "[]"] hyps loop start moved
  show ?thesis by auto
qed

text \<open>
  C6. For an aligned Slide obstacle inside the hit window the hit flag is the negation of
  the sliding flag, whatever the vertical position, velocity and jumping flag are; when
  sliding the step changes nothing but the object's position, otherwise the obstacle is
  absorbed by an active shield or the game ends with the reason of the Slide subtype.
\<close>

theorem slide_gate:
  assumes "active obj" and "obj_type obj = OBSTACLE" and "subtype obj = Some SLIDE"
    and "inHitWindow (obj\<lparr>obj_z := obj_z obj + moveZ\<rparr>)"
    and "aligned (obj\<lparr>obj_z := obj_z obj + moveZ\<rparr>) gd"
  shows "fst (obstacleHit (obj\<lparr>obj_z := obj_z obj + moveZ\<rparr>)
                (gd\<lparr>yPos := y, velocityY := v, isJumping := j\<rparr>)) = (\<not> isSliding gd)
         \<and> objectStep moveZ obj (gd, nextObjects)
             = (if isSliding gd
                then (gd, nextObjects @ [obj\<lparr>obj_z := obj_z obj + moveZ\<rparr>])
                else if 0 < shieldTimer gd
                then (gd\<lparr>scene := scene gd - {obj_id obj}, sounds := sounds gd @ [PlayCrash]\<rparr>,
                      nextObjects @ [obj\<lparr>obj_z := obj_z obj + moveZ, active := False\<rparr>])
                else (gd\<lparr>sounds := sounds gd @ [StopBGM, PlayGameOver],
                         gameStateRef := GAMEOVER, deathReason := ''HIT HEAD ON GATE'',
                         gameState := GAMEOVER\<rparr>,
                      nextObjects @ [obj\<lparr>obj_z := obj_z obj + moveZ\<rparr>]))"
proof -
  from assms(4) have "\<not> obj_z obj + moveZ > 25"
    by (simp add: inHitWindow_def HIT_Z_MAX_def)
  with assms show ?thesis
    by (simp add: objectStep_def collide_def obstacleHit_def Let_def)
qed

theorem slide_gate_witness:
  "active (gateAt 0 (- 1)) \<and> obj_type (gateAt 0 (- 1)) = OBSTACLE
   \<and> subtype (gateAt 0 (- 1)) = Some SLIDE
   \<and> inHitWindow ((gateAt 0 (- 1))\<lparr>obj_z := obj_z (gateAt 0 (- 1)) + 1\<rparr>)
   \<and> aligned ((gateAt 0 (- 1))\<lparr>obj_z := obj_z (gateAt 0 (- 1)) + 1\<rparr>) airborne
   \<and> isJumping airborne \<and> yPos airborne = 4 \<and> \<not> isSliding airborne
   \<and> \<not> 0 < shieldTimer airborne
   \<and> gameStateRef (fst (objectStep 1 (gateAt 0 (- 1)) (airborne, []))) = GAMEOVER
   \<and> deathReason (fst (objectStep 1 (gateAt 0 (- 1)) (airborne, []))) = ''HIT HEAD ON GATE''
   \<and> objectStep 1 (gateAt 0 (- 1)) (airborne\<lparr>isSliding := True\<rparr>, [])
       = (airborne\<lparr>isSliding := True\<rparr>, [gateAt 0 0])"
proof -
  have hyps: "active (gateAt 0 (- 1))" "obj_type (gateAt 0 (- 1)) = OBSTACLE"
    "subtype (gateAt 0 (- 1)) = Some SLIDE"
    "inHitWindow ((gateAt 0 (- 1))\<lparr>obj_z := obj_z (gateAt 0 (- 1)) + 1\<rparr>)"
    by (simp_all add: fixture_defs inHitWindow_def tuning_defs)
  have al: "aligned ((gateAt 0 (- 1))\<lparr>obj_z := obj_z (gateAt 0 (- 1)) + 1\<rparr>) airborne"
    "aligned ((gateAt 0 (- 1))\<lparr>obj_z := obj_z (gateAt 0 (- 1)) + 1\<rparr>) (airborne\<lparr>isSliding := True\<rparr>)"
    by (simp_all add: airborne_def fixture_defs freshWorld_eval aligned_def LANES_def tuning_defs)
  have pose: "isJumping airborne" "yPos airborne = 4" "\<not> isSliding airborne"
    "\<not> 0 < shieldTimer airborne"
    by (simp_all add: airborne_def freshWorld_eval)
  have moved: "(gateAt 0 (- 1))\<lparr>obj_z := obj_z (gateAt 0 (- 1)) + 1\<rparr> = gateAt 0 0"
    by (simp add: fixture_defs)
  from slide_gate [OF hyps al(1), where nextObjects = "[]"]
    slide_gate [OF hyps al(2), where nextObjects = "[]"]
    hyps al pose moved
  show ?thesis by simp
qed

text \<open>
  C9. With no shield, when an aligned obstacle, then an aligned coin, then a second aligned
  obstacle are processed in one tick, the first hit ends the game and the loop goes on: the
  coin is collected, and the second obstacle emits the game-over cues again and its reason
  replaces the first one.
\<close>

theorem loop_continues_after_game_over:
  assumes "objects gd = [o1, c, o2]" and "\<not> 0 < shieldTimer gd"
    and "active o1" and "obj_type o1 = OBSTACLE"
    and "inHitWindow (o1\<lparr>obj_z := obj_z o1 + moveZ\<rparr>)"
    and "aligned (o1\<lparr>obj_z := obj_z o1 + moveZ\<rparr>) gd"
    and "fst (obstacleHit (o1\<lparr>obj_z := obj_z o1 + moveZ\<rparr>) gd)"
    and "active c" and "obj_type c = COIN"
    and "inHitWindow (c\<lparr>obj_z := obj_z c + moveZ\<rparr>)"
    and "aligned (c\<lparr>obj_z := obj_z c + moveZ\<rparr>) gd"
    and "active o2" and "obj_type o2 = OBSTACLE"
    and "inHitWindow (o2\<lparr>obj_z := obj_z o2 + moveZ\<rparr>)"
    and "aligned (o2\<lparr>obj_z := obj_z o2 + moveZ\<rparr>) gd"
    and "fst (obstacleHit (o2\<lparr>obj_z := obj_z o2 + moveZ\<rparr>) gd)"
  shows "updateObjects moveZ gd
           = gd\<lparr> scene := scene gd - {obj_id c}, coins := coins gd + 1,
                 sounds := sounds gd @ [StopBGM, PlayGameOver, PlayCoin, StopBGM, PlayGameOver],
                 gameStateRef := GAMEOVER,
                 deathReason := snd (obstacleHit (o2\<lparr>obj_z := obj_z o2 + moveZ\<rparr>) gd),
                 gameState := GAMEOVER,
                 objects := [o1\<lparr>obj_z := obj_z o1 + moveZ\<rparr>,
                             c\<lparr>obj_z := obj_z c + moveZ, active := False\<rparr>,
                             o2\<lparr>obj_z := obj_z o2 + moveZ\<rparr>] \<rparr>"
proof -
  from assms(5,10,14)
  have near: "\<not> obj_z o1 + moveZ > 25" "\<not> obj_z c + moveZ > 25" "\<not> obj_z o2 + moveZ > 25"
    by (simp_all add: inHitWindow_def HIT_Z_MAX_def)
  have al: "aligned ob g' = aligned ob g" if "xPos g' = xPos g" for ob g g'
    using that by (simp add: aligned_def split: option.splits)
  have hit: "obstacleHit ob g' = obstacleHit ob g"
    if "yPos g' = yPos g" and "isSliding g' = isSliding g" for ob g g'
    using that by (simp add: obstacleHit_def)
  have s1: "objectStep moveZ o1 (gd, [])
      = (gd\<lparr>sounds := sounds gd @ [StopBGM, PlayGameOver], gameStateRef := GAMEOVER,
            deathReason := snd (obstacleHit (o1\<lparr>obj_z := obj_z o1 + moveZ\<rparr>) gd),
            gameState := GAMEOVER\<rparr>,
         [o1\<lparr>obj_z := obj_z o1 + moveZ\<rparr>])"
    using assms(2-7) near(1) by (simp add: objectStep_def collide_def Let_def split_beta)
  have s2: "objectStep moveZ c (g, nx)
      = (g\<lparr>scene := scene g - {obj_id c}, coins := coins g + 1, sounds := sounds g @ [PlayCoin]\<rparr>,
         nx @ [c\<lparr>obj_z := obj_z c + moveZ, active := False\<rparr>])"
    if "aligned (c\<lparr>obj_z := obj_z c + moveZ\<rparr>) g" for g nx
    using that assms(8-10) near(2) by (simp add: objectStep_def collide_def Let_def split_beta)
  have s3: "objectStep moveZ o2 (g, nx)
      = (g\<lparr>sounds := sounds g @ [StopBGM, PlayGameOver], gameStateRef := GAMEOVER,
            deathReason := snd (obstacleHit (o2\<lparr>obj_z := obj_z o2 + moveZ\<rparr>) g),
            gameState := GAMEOVER\<rparr>,
         nx @ [o2\<lparr>obj_z := obj_z o2 + moveZ\<rparr>])"
    if "aligned (o2\<lparr>obj_z := obj_z o2 + moveZ\<rparr>) g"
      and "fst (obstacleHit (o2\<lparr>obj_z := obj_z o2 + moveZ\<rparr>) g)"
      and "\<not> 0 < shieldTimer g" for g nx
    using that assms(12-14) near(3) by (simp add: objectStep_def collide_def Let_def split_beta)
  define g1 where "g1 = gd\<lparr>sounds := sounds gd @ [StopBGM, PlayGameOver],
      gameStateRef := GAMEOVER,
      deathReason := snd (obstacleHit (o1\<lparr>obj_z := obj_z o1 + moveZ\<rparr>) gd),
      gameState := GAMEOVER\<rparr>"
  define g2 where "g2 = g1\<lparr>scene := scene g1 - {obj_id c}, coins := coins g1 + 1,
      sounds := sounds g1 @ [PlayCoin]\<rparr>"
  have "aligned (c\<lparr>obj_z := obj_z c + moveZ\<rparr>) g1"
    using assms(11) al [of g1 gd] by (simp add: g1_def)
  note step2 = s2 [OF this]
  have "aligned (o2\<lparr>obj_z := obj_z o2 + moveZ\<rparr>) g2"
    and "fst (obstacleHit (o2\<lparr>obj_z := obj_z o2 + moveZ\<rparr>) g2)"
    and "\<not> 0 < shieldTimer g2"
    and reason: "obstacleHit (o2\<lparr>obj_z := obj_z o2 + moveZ\<rparr>) g2
                 = obstacleHit (o2\<lparr>obj_z := obj_z o2 + moveZ\<rparr>) gd"
    using assms(2,15,16) al [of g2 gd] hit [of g2 gd]
    by (simp_all add: g1_def g2_def)
  note step3 = s3 [OF this(1-3)]
  have "fold (objectStep moveZ) (objects gd) (gd, [])
      = (g2\<lparr>sounds := sounds g2 @ [StopBGM, PlayGameOver], gameStateRef := GAMEOVER,
            deathReason := snd (obstacleHit (o2\<lparr>obj_z := obj_z o2 + moveZ\<rparr>) gd),
            gameState := GAMEOVER\<rparr>,
         [o1\<lparr>obj_z := obj_z o1 + moveZ\<rparr>, c\<lparr>obj_z := obj_z c + moveZ, active := False\<rparr>,
          o2\<lparr>obj_z := obj_z o2 + moveZ\<rparr>])"
    using s1 step2 [of "[o1\<lparr>obj_z := obj_z o1 + moveZ\<rparr>]"]
      step3 [of "[o1\<lparr>obj_z := obj_z o1 + moveZ\<rparr>, c\<lparr>obj_z := obj_z c + moveZ, active := False\<rparr>]"]
      reason
    by (simp add: assms(1) g1_def [symmetric] g2_def [symmetric])
  then show ?thesis
    by (simp add: updateObjects_def g1_def g2_def)
qed

theorem loop_continues_after_game_over_witness:
  "objects wallCoinLog = [wallAt 0 (- 1), coinAt 1 (- 1), logAt 2 (- 1)]
   \<and> \<not> 0 < shieldTimer wallCoinLog \<and> coins wallCoinLog = 0
   \<and> gameStateRef (updateObjects 1 wallCoinLog) = GAMEOVER
   \<and> coins (updateObjects 1 wallCoinLog) = 1
   \<and> deathReason (updateObjects 1 wallCoinLog) = ''TRIPPED ON LOG''
   \<and> sounds (updateObjects 1 wallCoinLog)
       = sounds wallCoinLog @ [StopBGM, PlayGameOver, PlayCoin, StopBGM, PlayGameOver]"
proof -
  have objs: "objects wallCoinLog = [wallAt 0 (- 1), coinAt 1 (- 1), logAt 2 (- 1)]"
    and sh: "\<not> 0 < shieldTimer wallCoinLog" and coins0: "coins wallCoinLog = 0"
    by (simp_all add: wallCoinLog_def freshWorld_eval)
  have x: "xPos wallCoinLog = 0" "yPos wallCoinLog = 0"
    by (simp_all add: wallCoinLog_def freshWorld_eval)
  have wall: "active (wallAt 0 (- 1))" "obj_type (wallAt 0 (- 1)) = OBSTACLE"
    "inHitWindow ((wallAt 0 (- 1))\<lparr>obj_z := obj_z (wallAt 0 (- 1)) + 1\<rparr>)"
    "aligned ((wallAt 0 (- 1))\<lparr>obj_z := obj_z (wallAt 0 (- 1)) + 1\<rparr>) wallCoinLog"
    "fst (obstacleHit ((wallAt 0 (- 1))\<lparr>obj_z := obj_z (wallAt 0 (- 1)) + 1\<rparr>) wallCoinLog)"
    by (simp_all add: x fixture_defs inHitWindow_def aligned_def obstacleHit_def LANES_def
        tuning_defs)
  have coin: "active (coinAt 1 (- 1))" "obj_type (coinAt 1 (- 1)) = COIN"
    "inHitWindow ((coinAt 1 (- 1))\<lparr>obj_z := obj_z (coinAt 1 (- 1)) + 1\<rparr>)"
    "aligned ((coinAt 1 (- 1))\<lparr>obj_z := obj_z (coinAt 1 (- 1)) + 1\<rparr>) wallCoinLog"
    by (simp_all add: x fixture_defs inHitWindow_def aligned_def LANES_def tuning_defs)
  have log: "active (logAt 2 (- 1))" "obj_type (logAt 2 (- 1)) = OBSTACLE"
    "inHitWindow ((logAt 2 (- 1))\<lparr>obj_z := obj_z (logAt 2 (- 1)) + 1\<rparr>)"
    "aligned ((logAt 2 (- 1))\<lparr>obj_z := obj_z (logAt 2 (- 1)) + 1\<rparr>) wallCoinLog"
    "fst (obstacleHit ((logAt 2 (- 1))\<lparr>obj_z := obj_z (logAt 2 (- 1)) + 1\<rparr>) wallCoinLog)"
    by (simp_all add: x fixture_defs inHitWindow_def aligned_def obstacleHit_def LANES_def
        tuning_defs)
  have reason: "snd (obstacleHit ((logAt 2 (- 1))\<lparr>obj_z := obj_z (logAt 2 (- 1)) + 1\<rparr>) wallCoinLog)
      = ''TRIPPED ON LOG''"
    by (simp add: fixture_defs obstacleHit_def)
  from loop_continues_after_game_over [OF objs sh wall coin log] objs sh coins0 reason
  show ?thesis by simp
qed

subsection \<open>The segment window\<close>

lemma spaced_map_add: "spaced (map (\<lambda>z. z + m) zs) = spaced zs"
  by (induction zs rule: spaced.induct) auto

lemma spaced_tail: "spaced (z # zs) \<Longrightarrow> spaced zs"
  by (cases zs) simp_all

lemma spaced_snoc: "zs \<noteq> [] \<Longrightarrow> spaced zs \<Longrightarrow> spaced (zs @ [last zs - 20])"
  by (induction zs rule: spaced.induct) auto

lemma extendSegments_spaced:
  "segments gd \<noteq> [] \<Longrightarrow> spaced (segments gd) \<Longrightarrow>
   \<exists>gd' new. extendSegments rnd gd = Inr gd' \<and> segments gd' = segments gd @ new
     \<and> spaced (segments gd') \<and> last (segments gd') \<le> - 160"
proof (induction rnd gd rule: extendSegments.induct)
  case (1 rnd gd)
  show ?case
  proof (cases "- 160 < last (segments gd)")
    case True
    let ?g = "spawnSegment rnd (last (segments gd) - 20) gd"
    have eq: "extendSegments rnd gd = extendSegments rnd ?g"
      using True "1.prems"(1) by (subst extendSegments.simps) simp
    have "segments ?g \<noteq> []" and "spaced (segments ?g)"
      using "1.prems" by (simp_all add: spaced_snoc)
    from "1.IH" [OF "1.prems"(1) True this] obtain gd' new where
      "extendSegments rnd ?g = Inr gd'" "segments gd' = segments ?g @ new"
      "spaced (segments gd')" "last (segments gd') \<le> - 160"
      by blast
    with eq show ?thesis by simp
  next
    case False
    then have "extendSegments rnd gd = Inr gd"
      using "1.prems"(1) by (subst extendSegments.simps) simp
    with False "1.prems" show ?thesis by simp
  qed
qed

lemma worldMove_spaced:
  assumes "segments gd \<noteq> []" and "spaced (segments gd)" and "last (segments gd) \<le> - 140"
    and "moveZ \<le> 6"
  shows "\<exists>gd' k new. worldMove rnd moveZ gd = Inr gd' \<and> k \<le> (1::nat)
           \<and> segments gd' = drop k (map (\<lambda>z. z + moveZ) (segments gd)) @ new
           \<and> segments gd' \<noteq> [] \<and> spaced (segments gd') \<and> last (segments gd') \<le> - 160"
proof -
  from assms(1) obtain z0 rest where segs: "segments gd = z0 # rest"
    by (cases "segments gd") simp_all
  let ?moved = "map (\<lambda>z. z + moveZ) (segments gd)"
  let ?gd1 = "gd\<lparr>segments := ?moved\<rparr>"
  have sp: "spaced ?moved" using assms(2) by (simp add: spaced_map_add)
  show ?thesis
  proof (cases "z0 + moveZ > 80")
    case True
    have "rest \<noteq> []"
    proof
      assume "rest = []"
      with segs assms(3) have "z0 \<le> - 140" by simp
      with assms(4) True show False by simp
    qed
    let ?g = "?gd1\<lparr>segments := map (\<lambda>z. z + moveZ) rest\<rparr>"
    have wm: "worldMove rnd moveZ gd = extendSegments rnd ?g"
      using True segs by (simp add: worldMove_def)
    have "segments ?g \<noteq> []" using \<open>rest \<noteq> []\<close> by simp
    moreover have "spaced (segments ?g)"
      using sp segs spaced_tail [of "z0 + moveZ" "map (\<lambda>z. z + moveZ) rest"] by simp
    ultimately obtain gd' new where
      r: "extendSegments rnd ?g = Inr gd'" "segments gd' = segments ?g @ new"
      "spaced (segments gd')" "last (segments gd') \<le> - 160"
      using extendSegments_spaced [of ?g rnd] by blast
    from r(2) segs have "segments gd' = drop 1 ?moved @ new" by simp
    moreover from r(2) \<open>rest \<noteq> []\<close> have "segments gd' \<noteq> []" by simp
    ultimately show ?thesis using wm r by (intro exI [of _ gd'] exI [of _ "1::nat"] exI [of _ new]) simp
  next
    case False
    have wm: "worldMove rnd moveZ gd = extendSegments rnd ?gd1"
      using False segs by (simp add: worldMove_def)
    have "segments ?gd1 \<noteq> []" using segs by simp
    moreover have "spaced (segments ?gd1)" using sp by simp
    ultimately obtain gd' new where
      r: "extendSegments rnd ?gd1 = Inr gd'" "segments gd' = segments ?gd1 @ new"
      "spaced (segments gd')" "last (segments gd') \<le> - 160"
      using extendSegments_spaced [of ?gd1 rnd] by blast
    from r(2) have "segments gd' = drop 0 ?moved @ new" by simp
    moreover from r(2) segs have "segments gd' \<noteq> []" by simp
    ultimately show ?thesis using wm r by (intro exI [of _ gd'] exI [of _ "0::nat"] exI [of _ new]) simp
  qed
qed

lemma segments_objectStep [simp]:
  "segments (fst (objectStep moveZ obj acc)) = segments (fst acc)"
  by (simp add: objectStep_def collide_def Let_def split_beta split: ObjType.splits)

lemma segments_fold_objectStep:
  "segments (fst (fold (objectStep moveZ) objs acc)) = segments (fst acc)"
  by (induction objs arbitrary: acc) simp_all

lemma segments_updateObjects [simp]: "segments (updateObjects moveZ gd) = segments gd"
  using segments_fold_objectStep [of moveZ "objects gd" "(gd, [])"]
  by (simp add: updateObjects_def split_beta)

lemma segments_player_phases [simp]:
  "segments (updateSpeed dt gd) = segments gd"
  "segments (updateShield dt gd) = segments gd"
  "segments (moveVertical dt gd) = segments gd"
  by (simp_all add: updateSpeed_def updateShield_def moveVertical_def Let_def)

lemma speed_player_phases [simp]:
  "speed (updateSpeed dt gd) = min (speed gd + SPEED_INC * dt) MAX_SPEED"
  "speed (updateShield dt gd) = speed gd"
  "speed (moveVertical dt gd) = speed gd"
  by (simp_all add: updateSpeed_def updateShield_def moveVertical_def Let_def)

lemma speed_of_kinematics: "kinematics a = kinematics b \<Longrightarrow> speed a = speed b"
  by (simp add: kinematics_def)

lemma animate_segment_window:
  assumes "gameStateRef gd = PLAYING" and "LANES (lane gd) \<noteq> None" and "0 \<le> clockDelta"
    and "segments gd \<noteq> []" and "spaced (segments gd)" and "last (segments gd) \<le> - 140"
  shows "\<exists>gd' k new. animate rnd clockDelta gd = Inr gd'
           \<and> k \<le> (1::nat)
           \<and> segments gd'
               = drop k (map (\<lambda>z. z + speed gd' * min clockDelta 0.1) (segments gd)) @ new
           \<and> segments gd' \<noteq> [] \<and> spaced (segments gd') \<and> last (segments gd') \<le> - 160"
proof -
  define dt where "dt = min clockDelta 0.1"
  from assms(2) obtain targetX where tx: "LANES (lane gd) = Some targetX" by auto
  define gd1 where "gd1 = (updateShield dt (updateSpeed dt gd))
      \<lparr>xPos := lerp (xPos gd) targetX (dt * LANE_SPEED)\<rparr>"
  define gd2 where "gd2 = moveVertical dt gd1"
  have lat: "moveLateral dt (updateShield dt (updateSpeed dt gd)) = Inr gd1"
    using tx by (simp add: moveLateral_Inr gd1_def)
  have segs2: "segments gd2 = segments gd" by (simp add: gd2_def gd1_def)
  have sp2: "speed gd2 = min (speed gd + SPEED_INC * dt) MAX_SPEED"
    by (simp add: gd2_def gd1_def)
  have dt: "0 \<le> dt" "dt \<le> 0.1" using assms(3) by (simp_all add: dt_def)
  have "speed gd2 * dt \<le> 60 * dt"
    using dt(1) sp2 by (intro mult_right_mono) (simp_all add: MAX_SPEED_def)
  with dt(2) have mz: "speed gd2 * dt \<le> 6" by simp
  from worldMove_spaced [of gd2 "speed gd2 * dt" rnd] assms(4-6) segs2 mz
  obtain gd3 k new where
    wm: "worldMove rnd (speed gd2 * dt) gd2 = Inr gd3" and k: "k \<le> (1::nat)"
    and s3: "segments gd3 = drop k (map (\<lambda>z. z + speed gd2 * dt) (segments gd)) @ new"
    "segments gd3 \<noteq> []" "spaced (segments gd3)" "last (segments gd3) \<le> - 160"
    by auto
  define gd' where "gd' = updateObjects (speed gd2 * dt) gd3"
  have run: "animate rnd clockDelta gd = Inr gd'"
    using assms(1) lat wm
    by (simp add: animate_def Let_def dt_def [symmetric] gd2_def [symmetric] gd'_def)
  have "kinematics gd' = kinematics gd2"
    using kinematics_worldMove [OF wm] by (simp add: gd'_def)
  then have sp: "speed gd' = speed gd2" by (rule speed_of_kinematics)
  have segs': "segments gd' = segments gd3" by (simp add: gd'_def)
  have "animate rnd clockDelta gd = Inr gd' \<and> k \<le> 1
      \<and> segments gd' = drop k (map (\<lambda>z. z + speed gd' * min clockDelta 0.1) (segments gd)) @ new
      \<and> segments gd' \<noteq> [] \<and> spaced (segments gd') \<and> last (segments gd') \<le> - 160"
    using run k s3 sp segs' by (simp add: dt_def)
  then show ?thesis by blast
qed

text \<open>
  C8. When the segment sequence is non-empty, spaced by exactly 20 and reaches -140 (\<open>initWorld\<close> leaves it so for any draws, and so does every tick), a Playing tick completes, and
  afterwards the sequence is again non-empty and spaced by exactly 20, its last position is
  at most -160, and it consists of the scrolled old segments, without the first one at
  most, followed by the segments created in the tick, each 20 below the last.
\<close>

theorem segment_window:
  assumes "gameStateRef gd = PLAYING" and "LANES (lane gd) \<noteq> None" and "0 \<le> clockDelta"
    and "segments gd \<noteq> []" and "spaced (segments gd)" and "last (segments gd) \<le> - 140"
  shows "(segments (initWorld rnd0 st) \<noteq> [] \<and> spaced (segments (initWorld rnd0 st))
          \<and> last (segments (initWorld rnd0 st)) \<le> - 140)
         \<and> (\<exists>gd' k new. animate rnd clockDelta gd = Inr gd'
               \<and> k \<le> (1::nat)
               \<and> segments gd'
                   = drop k (map (\<lambda>z. z + speed gd' * min clockDelta 0.1) (segments gd)) @ new
               \<and> segments gd' \<noteq> [] \<and> spaced (segments gd') \<and> last (segments gd') \<le> - 160)"
  using animate_segment_window [OF assms] by (simp add: initWorld_segments)

theorem segment_window_witness:
  "gameStateRef freshWorld = PLAYING \<and> LANES (lane freshWorld) \<noteq> None
   \<and> segments freshWorld = [80, 60, 40, 20, 0, - 20, - 40, - 60, - 80, - 100, - 120, - 140]
   \<and> spaced (segments freshWorld)
   \<and> \<not> isl (animate noPickups (1/10) freshWorld)
   \<and> segments (projr (animate noPickups (1/10) freshWorld))
       = [7751 / 125, 5251 / 125, 2751 / 125, 251 / 125, - (2249 / 125), - (4749 / 125),
          - (7249 / 125), - (9749 / 125), - (12249 / 125), - (14749 / 125), - (17249 / 125),
          - (19749 / 125), - (22249 / 125)]
   \<and> spaced (segments (projr (animate noPickups (1/10) freshWorld)))
   \<and> last (segments (projr (animate noPickups (1/10) freshWorld))) \<le> - 160"
proof -
  have start: "gameStateRef freshWorld = PLAYING" "LANES (lane freshWorld) \<noteq> None"
    "(0::real) \<le> 1/10"
    by (simp_all add: freshWorld_eval LANES_def)
  have segs: "segments freshWorld = [80, 60, 40, 20, 0, - 20, - 40, - 60, - 80, - 100, - 120, - 140]"
    by (simp add: freshWorld_def initWorld_segments)
  then have inv: "segments freshWorld \<noteq> []" "spaced (segments freshWorld)"
    "last (segments freshWorld) \<le> - 140"
    by simp_all
  from segment_window [OF start inv, of noPickups] obtain gd' where
    run: "animate noPickups (1/10) freshWorld = Inr gd'"
    and post: "spaced (segments gd')" "last (segments gd') \<le> - 160"
    by blast
  have "segments (projr (animate noPickups (1/10) freshWorld))
       = [7751 / 125, 5251 / 125, 2751 / 125, 251 / 125, - (2249 / 125), - (4749 / 125),
          - (7249 / 125), - (9749 / 125), - (12249 / 125), - (14749 / 125), - (17249 / 125),
          - (19749 / 125), - (22249 / 125)]"
    by (simp add: freshWorld_eval) (simp add: animate_eval)
  with run post start segs inv show ?thesis by simp
qed

subsection \<open>The single-obstacle layout\<close>

lemma pickSubtype_draws:
  "fst (pickSubtype rnd st) = subtypeOfDraws (rnd (randCalls st)) (rnd (Suc (randCalls st)))"
  by (simp add: pickSubtype_def subtypeOfDraws_def Math_random_def Let_def)

lemma pickSubtype_objects [simp]:
  "objects (snd (pickSubtype rnd st)) = objects st"
  "objIdCounter (snd (pickSubtype rnd st)) = objIdCounter st"
  by (simp_all add: pickSubtype_def Math_random_def Let_def)

lemma spawnSingle_objects:
  "objects (spawnSingle rnd z st)
     = objects st @
       [\<lparr> obj_id = objIdCounter st, obj_type = OBSTACLE,
          subtype = Some (subtypeOfDraws (rnd (Suc (randCalls st))) (rnd (Suc (Suc (randCalls st))))),
          obj_lane = laneOfDraw (rnd (randCalls st)), obj_z = z, active = True \<rparr>]"
proof -
  define st1 where "st1 = snd (Math_random rnd st)"
  have r1: "Math_random rnd st = (rnd (randCalls st), st1)"
    and st1: "randCalls st1 = Suc (randCalls st)" "objects st1 = objects st"
    "objIdCounter st1 = objIdCounter st"
    by (simp_all add: st1_def Math_random_def)
  show ?thesis
    using pickSubtype_draws [of rnd st1] pickSubtype_objects [of rnd st1] st1
    by (simp add: spawnSingle_def r1 Let_def split_beta spawnObject_def laneOfDraw_def)
qed

lemma spawnPickup_objects:
  "\<exists>pickups. objects (spawnPickup rnd z st) = objects st @ pickups
      \<and> length pickups \<le> 1 \<and> list_all (\<lambda>p. obj_type p \<noteq> OBSTACLE) pickups"
proof -
  have "objects (spawnPickup rnd z st) = objects st
      \<or> (\<exists>p. objects (spawnPickup rnd z st) = objects st @ [p] \<and> obj_type p \<noteq> OBSTACLE)"
    by (simp add: spawnPickup_def Math_random_def Let_def spawnObject_def)
  then show ?thesis
  proof
    assume "objects (spawnPickup rnd z st) = objects st"
    then show ?thesis by (intro exI [of _ "[]"]) simp
  next
    assume "\<exists>p. objects (spawnPickup rnd z st) = objects st @ [p] \<and> obj_type p \<noteq> OBSTACLE"
    then obtain p where "objects (spawnPickup rnd z st) = objects st @ [p]"
      "obj_type p \<noteq> OBSTACLE" by blast
    then show ?thesis by (intro exI [of _ "[p]"]) simp
  qed
qed

lemma spawnSegment_single:
  assumes "zPos < - 10" and "rnd (randCalls st) < 0.3"
  shows "\<exists>pickups. objects (spawnSegment rnd zPos st)
      = objects st @
        [\<lparr> obj_id = objIdCounter st, obj_type = OBSTACLE,
           subtype = Some (subtypeOfDraws (rnd (randCalls st + 2)) (rnd (randCalls st + 3))),
           obj_lane = laneOfDraw (rnd (randCalls st + 1)), obj_z = zPos, active = True \<rparr>]
        @ pickups
      \<and> length pickups \<le> 1 \<and> list_all (\<lambda>p. obj_type p \<noteq> OBSTACLE) pickups"
proof -
  define st2 where "st2 = snd (Math_random rnd (st\<lparr>segments := segments st @ [zPos]\<rparr>))"
  have st2: "randCalls st2 = Suc (randCalls st)" "objects st2 = objects st"
    "objIdCounter st2 = objIdCounter st"
    by (simp_all add: st2_def Math_random_def)
  have seg: "spawnSegment rnd zPos st = spawnPickup rnd zPos (spawnSingle rnd zPos st2)"
    using assms by (simp add: spawnSegment_def Math_random_def Let_def st2_def)
  from spawnPickup_objects [of rnd zPos "spawnSingle rnd zPos st2"] obtain pickups where
    "objects (spawnPickup rnd zPos (spawnSingle rnd zPos st2))
       = objects (spawnSingle rnd zPos st2) @ pickups"
    "length pickups \<le> 1" "list_all (\<lambda>p. obj_type p \<noteq> OBSTACLE) pickups"
    by blast
  with seg spawnSingle_objects [of rnd zPos st2] st2 show ?thesis
    by (intro exI [of _ pickups]) (simp add: eval_nat_numeral)
qed

lemma length_filter_product:
  "length (filter (\<lambda>(i, j). P i \<and> Q j) (List.product xs ys))
     = length (filter P xs) * length (filter Q ys)"
proof (induction xs)
  case Nil
  then show ?case by simp
next
  case (Cons x xs)
  have "length (filter (\<lambda>(i, j). P i \<and> Q j) (map (Pair x) ys))
      = (if P x then length (filter Q ys) else 0)"
    by (induction ys) simp_all
  with Cons show ?case by simp
qed

lemma gridFreq_product:
  "gridFreq (\<lambda>a b. A a \<and> B b) N = drawFreq A N * drawFreq B N"
  by (simp add: gridFreq_def drawFreq_def length_filter_product)

lemma drawFreq_True: "0 < N \<Longrightarrow> drawFreq (\<lambda>u. True) N = 1"
  by (simp add: drawFreq_def)

lemma drawFreq_not: "0 < N \<Longrightarrow> drawFreq (\<lambda>u. \<not> A u) N = 1 - drawFreq A N"
proof -
  assume N: "0 < N"
  have "length (filter (\<lambda>i. A (real i / real N)) [0..<N])
        + length (filter (\<lambda>i. \<not> A (real i / real N)) [0..<N]) = N"
    using sum_length_filter_compl [of "\<lambda>i. A (real i / real N)" "[0..<N]"] by simp
  then have "real (length (filter (\<lambda>i. \<not> A (real i / real N)) [0..<N]))
      = real N - real (length (filter (\<lambda>i. A (real i / real N)) [0..<N]))"
    by linarith
  with N show ?thesis by (simp add: drawFreq_def diff_divide_distrib)
qed

lemma length_filter_card:
  "length (filter P [0..<N]) = card {i. i < N \<and> P i}"
proof -
  have "length (filter P [0..<N]) = card ({i. P i} \<inter> set [0..<N])"
    by (rule distinct_length_filter) simp
  also have "{i. P i} \<inter> set [0..<N] = {i. i < N \<and> P i}" by auto
  finally show ?thesis .
qed

lemma count_ge:
  assumes "0 \<le> c" and "c \<le> 1" and "0 < N"
  shows "real (length (filter (\<lambda>i. c \<le> real i / real N) [0..<N])) = real N - real (nat \<lceil>c * real N\<rceil>)"
proof -
  define m where "m = nat \<lceil>c * real N\<rceil>"
  have iff: "c \<le> real i / real N \<longleftrightarrow> m \<le> i" for i
  proof -
    have "c \<le> real i / real N \<longleftrightarrow> c * real N \<le> real i"
      using assms(3) by (simp add: pos_le_divide_eq)
    also have "\<dots> \<longleftrightarrow> \<lceil>c * real N\<rceil> \<le> int i"
      by (simp add: ceiling_le_iff)
    also have "\<dots> \<longleftrightarrow> m \<le> i" unfolding m_def by linarith
    finally show ?thesis .
  qed
  have "{i. i < N \<and> c \<le> real i / real N} = {i. i < N \<and> m \<le> i}"
    by (simp only: iff)
  also have "\<dots> = {m..<N}" by auto
  finally have "length (filter (\<lambda>i. c \<le> real i / real N) [0..<N]) = N - m"
    by (simp only: length_filter_card card_atLeastLessThan)
  moreover have "m \<le> N"
  proof -
    have "c * real N \<le> 1 * real N" using assms(2) by (intro mult_right_mono) simp_all
    then have "\<lceil>c * real N\<rceil> \<le> int N" by (simp add: ceiling_le_iff)
    then show ?thesis unfolding m_def by linarith
  qed
  ultimately show ?thesis by (simp add: m_def)
qed

lemma count_gt:
  assumes "0 \<le> c" and "c < 1" and "0 < N"
  shows "real (length (filter (\<lambda>i. c < real i / real N) [0..<N]))
           = real N - real (nat \<lfloor>c * real N\<rfloor> + 1)"
proof -
  define m where "m = nat \<lfloor>c * real N\<rfloor> + 1"
  have nn: "0 \<le> \<lfloor>c * real N\<rfloor>" using assms by simp
  have iff: "c < real i / real N \<longleftrightarrow> m \<le> i" for i
  proof -
    have "c < real i / real N \<longleftrightarrow> c * real N < real i"
      using assms(3) by (simp add: pos_less_divide_eq)
    also have "\<dots> \<longleftrightarrow> \<lfloor>c * real N\<rfloor> < int i"
      by (simp add: floor_less_iff)
    also have "\<dots> \<longleftrightarrow> m \<le> i" using nn unfolding m_def by linarith
    finally show ?thesis .
  qed
  have "{i. i < N \<and> c < real i / real N} = {i. i < N \<and> m \<le> i}"
    by (simp only: iff)
  also have "\<dots> = {m..<N}" by auto
  finally have "length (filter (\<lambda>i. c < real i / real N) [0..<N]) = N - m"
    by (simp only: length_filter_card card_atLeastLessThan)
  moreover have "m \<le> N"
  proof -
    have "c * real N < 1 * real N" using assms(2,3) by (intro mult_strict_right_mono) simp_all
    then have "\<lfloor>c * real N\<rfloor> < int N" by (simp add: floor_less_iff)
    with nn show ?thesis unfolding m_def by linarith
  qed
  ultimately show ?thesis by (simp add: m_def)
qed

lemma freq_error:
  fixes k x c :: real
  assumes "0 < N" and "x = c * real N" and "\<bar>x - k\<bar> \<le> 1"
  shows "\<bar>(real N - k) / real N - (1 - c)\<bar> \<le> 1 / real N"
proof -
  have "(real N - k) / real N - (1 - c) = (x - k) / real N"
    using assms(1,2) by (simp add: field_simps)
  then have "\<bar>(real N - k) / real N - (1 - c)\<bar> = \<bar>x - k\<bar> / real N"
    by simp
  also have "\<dots> \<le> 1 / real N"
    using assms(3) by (rule divide_right_mono) simp
  finally show ?thesis .
qed

lemma drawFreq_ge_bounds:
  assumes "0 \<le> c" and "c \<le> 1" and "0 < N"
  shows "\<bar>drawFreq (\<lambda>u. c \<le> u) N - (1 - c)\<bar> \<le> 1 / real N"
proof -
  define x where "x = c * real N"
  define k where "k = real (nat \<lceil>x\<rceil>)"
  have "0 \<le> x" using assms by (simp add: x_def)
  then have "0 \<le> \<lceil>x\<rceil>" by simp
  then have "k = of_int \<lceil>x\<rceil>" by (simp add: k_def)
  moreover have "x \<le> of_int \<lceil>x\<rceil>" "of_int \<lceil>x\<rceil> < x + 1" by linarith+
  ultimately have "\<bar>x - k\<bar> \<le> 1" by linarith
  from freq_error [OF assms(3) x_def this] show ?thesis
    by (simp add: drawFreq_def count_ge [OF assms] k_def x_def)
qed

lemma drawFreq_gt_bounds:
  assumes "0 \<le> c" and "c < 1" and "0 < N"
  shows "\<bar>drawFreq (\<lambda>u. c < u) N - (1 - c)\<bar> \<le> 1 / real N"
proof -
  define x where "x = c * real N"
  define k where "k = real (nat \<lfloor>x\<rfloor> + 1)"
  have "0 \<le> x" using assms by (simp add: x_def)
  then have "0 \<le> \<lfloor>x\<rfloor>" by simp
  then have "k = of_int \<lfloor>x\<rfloor> + 1" by (simp add: k_def)
  moreover have "of_int \<lfloor>x\<rfloor> \<le> x" "x < of_int \<lfloor>x\<rfloor> + 1" by linarith+
  ultimately have "\<bar>x - k\<bar> \<le> 1" by linarith
  from freq_error [OF assms(3) x_def this] show ?thesis
    by (simp add: drawFreq_def count_gt [OF assms] k_def x_def)
qed

lemma tendsto_of_bound:
  fixes f :: "nat \<Rightarrow> real"
  assumes "\<And>N. 0 < N \<Longrightarrow> \<bar>f N - L\<bar> \<le> 1 / real N"
  shows "f \<longlonglongrightarrow> L"
proof (rule tendsto_sandwich)
  show "\<forall>\<^sub>F N in sequentially. L - 1 / real N \<le> f N"
    unfolding eventually_sequentially
  proof (intro exI [of _ 1] allI impI)
    fix N :: nat assume "1 \<le> N"
    then have "\<bar>f N - L\<bar> \<le> 1 / real N" by (intro assms) simp
    then show "L - 1 / real N \<le> f N" by linarith
  qed
  show "\<forall>\<^sub>F N in sequentially. f N \<le> L + 1 / real N"
    unfolding eventually_sequentially
  proof (intro exI [of _ 1] allI impI)
    fix N :: nat assume "1 \<le> N"
    then have "\<bar>f N - L\<bar> \<le> 1 / real N" by (intro assms) simp
    then show "f N \<le> L + 1 / real N" by linarith
  qed
  show "(\<lambda>N. L - 1 / real N) \<longlonglongrightarrow> L"
    using tendsto_diff [OF tendsto_const lim_1_over_n, of L] by simp
  show "(\<lambda>N. L + 1 / real N) \<longlonglongrightarrow> L"
    using tendsto_add [OF tendsto_const lim_1_over_n, of L] by simp
qed

lemma drawFreq_ge_limit:
  "0 \<le> c \<Longrightarrow> c \<le> 1 \<Longrightarrow> (\<lambda>N. drawFreq (\<lambda>u. c \<le> u) N) \<longlonglongrightarrow> 1 - c"
  by (rule tendsto_of_bound) (rule drawFreq_ge_bounds)

lemma drawFreq_gt_limit:
  "0 \<le> c \<Longrightarrow> c < 1 \<Longrightarrow> (\<lambda>N. drawFreq (\<lambda>u. c < u) N) \<longlonglongrightarrow> 1 - c"
  by (rule tendsto_of_bound) (rule drawFreq_gt_bounds)


lemma drawFreq_not_gt_limit:
  assumes "0 \<le> c" and "c < 1"
  shows "(\<lambda>N. drawFreq (\<lambda>u. \<not> c < u) N) \<longlonglongrightarrow> c"
proof (rule tendsto_of_bound)
  fix N :: nat assume N: "0 < N"
  from drawFreq_gt_bounds [OF assms N] drawFreq_not [OF N, of "\<lambda>u. c < u"]
  show "\<bar>drawFreq (\<lambda>u. \<not> c < u) N - c\<bar> \<le> 1 / real N" by simp
qed

lemma drawFreq_not_ge_limit:
  assumes "0 \<le> c" and "c \<le> 1"
  shows "(\<lambda>N. drawFreq (\<lambda>u. \<not> c \<le> u) N) \<longlonglongrightarrow> c"
proof (rule tendsto_of_bound)
  fix N :: nat assume N: "0 < N"
  from drawFreq_ge_bounds [OF assms N] drawFreq_not [OF N, of "\<lambda>u. c \<le> u"]
  show "\<bar>drawFreq (\<lambda>u. \<not> c \<le> u) N - c\<bar> \<le> 1 / real N" by simp
qed

lemma drawFreq_True_limit: "(\<lambda>N. drawFreq (\<lambda>u. True) N) \<longlonglongrightarrow> 1"
  by (rule tendsto_of_bound) (simp add: drawFreq_True)

lemma drawFreq_cong:
  assumes "\<And>u. 0 \<le> u \<Longrightarrow> u < 1 \<Longrightarrow> E u = E' u"
  shows "drawFreq E N = drawFreq E' N"
proof -
  have "filter (\<lambda>i. E (real i / real N)) [0..<N] = filter (\<lambda>i. E' (real i / real N)) [0..<N]"
  proof (rule filter_cong [OF refl])
    fix i assume "i \<in> set [0..<N]"
    then have "i < N" by simp
    then have "0 \<le> real i / real N" "real i / real N < 1" by simp_all
    then show "E (real i / real N) = E' (real i / real N)" by (rule assms)
  qed
  then show ?thesis by (simp add: drawFreq_def)
qed

lemma length_filter_diff:
  assumes "\<And>x. Q x \<Longrightarrow> P x"
  shows "length (filter (\<lambda>x. P x \<and> \<not> Q x) xs) + length (filter Q xs) = length (filter P xs)"
  using assms by (induction xs) auto

lemma drawFreq_diff:
  assumes "\<And>u. B u \<Longrightarrow> A u"
  shows "drawFreq (\<lambda>u. A u \<and> \<not> B u) N = drawFreq A N - drawFreq B N"
proof -
  have "length (filter (\<lambda>i. A (real i / real N) \<and> \<not> B (real i / real N)) [0..<N])
        + length (filter (\<lambda>i. B (real i / real N)) [0..<N])
        = length (filter (\<lambda>i. A (real i / real N)) [0..<N])"
    by (rule length_filter_diff) (rule assms)
  then have "real (length (filter (\<lambda>i. A (real i / real N) \<and> \<not> B (real i / real N)) [0..<N]))
      = real (length (filter (\<lambda>i. A (real i / real N)) [0..<N]))
        - real (length (filter (\<lambda>i. B (real i / real N)) [0..<N]))"
    by linarith
  then show ?thesis by (simp add: drawFreq_def diff_divide_distrib)
qed

lemma subtype_events:
  "(subtypeOfDraws a b = FULL) = (0.6 < a \<and> True)"
  "(subtypeOfDraws a b = JUMP) = (\<not> 0.6 < a \<and> 0.5 < b)"
  "(subtypeOfDraws a b = SLIDE) = (\<not> 0.6 < a \<and> \<not> 0.5 < b)"
  by (auto simp: subtypeOfDraws_def)

lemma subtype_frequencies:
  "(\<lambda>N. gridFreq (\<lambda>a b. subtypeOfDraws a b = FULL) N) \<longlonglongrightarrow> 0.4"
  "(\<lambda>N. gridFreq (\<lambda>a b. subtypeOfDraws a b = JUMP) N) \<longlonglongrightarrow> 0.3"
  "(\<lambda>N. gridFreq (\<lambda>a b. subtypeOfDraws a b = SLIDE) N) \<longlonglongrightarrow> 0.3"
proof -
  have gt6: "(\<lambda>N. drawFreq (\<lambda>u. 0.6 < u) N) \<longlonglongrightarrow> 1 - 0.6"
    and le6: "(\<lambda>N. drawFreq (\<lambda>u. \<not> 0.6 < u) N) \<longlonglongrightarrow> 0.6"
    and gt5: "(\<lambda>N. drawFreq (\<lambda>u. 0.5 < u) N) \<longlonglongrightarrow> 1 - 0.5"
    and le5: "(\<lambda>N. drawFreq (\<lambda>u. \<not> 0.5 < u) N) \<longlonglongrightarrow> 0.5"
    by (rule drawFreq_gt_limit drawFreq_not_gt_limit; simp)+
  from tendsto_mult [OF gt6 drawFreq_True_limit]
  show "(\<lambda>N. gridFreq (\<lambda>a b. subtypeOfDraws a b = FULL) N) \<longlonglongrightarrow> 0.4"
    by (simp add: subtype_events(1) gridFreq_product del: simp_thms)
  from tendsto_mult [OF le6 gt5]
  show "(\<lambda>N. gridFreq (\<lambda>a b. subtypeOfDraws a b = JUMP) N) \<longlonglongrightarrow> 0.3"
    by (simp add: subtype_events(2) gridFreq_product)
  from tendsto_mult [OF le6 le5]
  show "(\<lambda>N. gridFreq (\<lambda>a b. subtypeOfDraws a b = SLIDE) N) \<longlonglongrightarrow> 0.3"
    by (simp add: subtype_events(3) gridFreq_product)
qed

lemma laneOfDraw_thirds:
  assumes "0 \<le> u" and "u < 1"
  shows "laneOfDraw u = 0 \<longleftrightarrow> \<not> 1/3 \<le> u"
    and "laneOfDraw u = 1 \<longleftrightarrow> 1/3 \<le> u \<and> \<not> 2/3 \<le> u"
    and "laneOfDraw u = 2 \<longleftrightarrow> 2/3 \<le> u"
  using assms unfolding laneOfDraw_def floor_eq_iff by auto

lemma lane_frequencies:
  "(\<lambda>N. drawFreq (\<lambda>u. laneOfDraw u = 0) N) \<longlonglongrightarrow> 1/3"
  "(\<lambda>N. drawFreq (\<lambda>u. laneOfDraw u = 1) N) \<longlonglongrightarrow> 1/3"
  "(\<lambda>N. drawFreq (\<lambda>u. laneOfDraw u = 2) N) \<longlonglongrightarrow> 1/3"
proof -
  have e0: "drawFreq (\<lambda>u. laneOfDraw u = 0) N = drawFreq (\<lambda>u. \<not> 1/3 \<le> u) N" for N
    by (rule drawFreq_cong) (rule laneOfDraw_thirds)
  have e1: "drawFreq (\<lambda>u. laneOfDraw u = 1) N
      = drawFreq (\<lambda>u. 1/3 \<le> u) N - drawFreq (\<lambda>u. 2/3 \<le> u) N" for N
  proof -
    have "drawFreq (\<lambda>u. laneOfDraw u = 1) N = drawFreq (\<lambda>u. 1/3 \<le> u \<and> \<not> 2/3 \<le> u) N"
      by (rule drawFreq_cong) (rule laneOfDraw_thirds)
    also have "\<dots> = drawFreq (\<lambda>u. 1/3 \<le> u) N - drawFreq (\<lambda>u. 2/3 \<le> u) N"
      by (rule drawFreq_diff) simp
    finally show ?thesis .
  qed
  have e2: "drawFreq (\<lambda>u. laneOfDraw u = 2) N = drawFreq (\<lambda>u. 2/3 \<le> u) N" for N
    by (rule drawFreq_cong) (rule laneOfDraw_thirds)
  have g1: "(\<lambda>N. drawFreq (\<lambda>u. 1/3 \<le> u) N) \<longlonglongrightarrow> 1 - 1/3"
    and g2: "(\<lambda>N. drawFreq (\<lambda>u. 2/3 \<le> u) N) \<longlonglongrightarrow> 1 - 2/3"
    and n1: "(\<lambda>N. drawFreq (\<lambda>u. \<not> 1/3 \<le> u) N) \<longlonglongrightarrow> 1/3"
    by (rule drawFreq_ge_limit drawFreq_not_ge_limit; simp)+
  from n1 show "(\<lambda>N. drawFreq (\<lambda>u. laneOfDraw u = 0) N) \<longlonglongrightarrow> 1/3"
    by (simp only: e0)
  from tendsto_diff [OF g1 g2] show "(\<lambda>N. drawFreq (\<lambda>u. laneOfDraw u = 1) N) \<longlonglongrightarrow> 1/3"
    by (simp add: e1)
  from g2 show "(\<lambda>N. drawFreq (\<lambda>u. laneOfDraw u = 2) N) \<longlonglongrightarrow> 1/3"
    by (simp add: e2)
qed

text \<open>
  C4. In the single-obstacle layout (segment beyond -10, first draw below 0.3) exactly one
  obstacle is added, at the segment's position, followed by at most one pickup. Its lane
  is \<open>\<lfloor>3 u1\<rfloor>\<close> of the next draw \<open>u1\<close> and its subtype is Full when the draw \<open>u2\<close>
  after that exceeds 0.6, otherwise Jump when a further draw \<open>u3\<close> exceeds 0.5, else
  Slide. Over equally spaced draws the frequencies of Full, Jump and Slide tend to exactly
  0.4, 0.3 and 0.3, and the frequency of each of the three lanes to 1/3.
\<close>

theorem single_obstacle_distribution:
  assumes "zPos < - 10" and "rnd (randCalls st) < 0.3" and "0 \<le> u" and "u < 1"
  shows "(\<exists>pickups. objects (spawnSegment rnd zPos st)
            = objects st @
              [\<lparr> obj_id = objIdCounter st, obj_type = OBSTACLE,
                 subtype = Some (subtypeOfDraws (rnd (randCalls st + 2)) (rnd (randCalls st + 3))),
                 obj_lane = laneOfDraw (rnd (randCalls st + 1)), obj_z = zPos, active = True \<rparr>]
              @ pickups
            \<and> length pickups \<le> 1 \<and> list_all (\<lambda>p. obj_type p \<noteq> OBSTACLE) pickups)
         \<and> (subtypeOfDraws a b = FULL \<longleftrightarrow> 0.6 < a)
         \<and> (subtypeOfDraws a b = JUMP \<longleftrightarrow> a \<le> 0.6 \<and> 0.5 < b)
         \<and> (subtypeOfDraws a b = SLIDE \<longleftrightarrow> a \<le> 0.6 \<and> b \<le> 0.5)
         \<and> (laneOfDraw u = 0 \<longleftrightarrow> u < 1/3)
         \<and> (laneOfDraw u = 1 \<longleftrightarrow> 1/3 \<le> u \<and> u < 2/3)
         \<and> (laneOfDraw u = 2 \<longleftrightarrow> 2/3 \<le> u)
         \<and> (\<lambda>N. gridFreq (\<lambda>a b. subtypeOfDraws a b = FULL) N) \<longlonglongrightarrow> 0.4
         \<and> (\<lambda>N. gridFreq (\<lambda>a b. subtypeOfDraws a b = JUMP) N) \<longlonglongrightarrow> 0.3
         \<and> (\<lambda>N. gridFreq (\<lambda>a b. subtypeOfDraws a b = SLIDE) N) \<longlonglongrightarrow> 0.3
         \<and> (\<lambda>N. drawFreq (\<lambda>u. laneOfDraw u = 0) N) \<longlonglongrightarrow> 1/3
         \<and> (\<lambda>N. drawFreq (\<lambda>u. laneOfDraw u = 1) N) \<longlonglongrightarrow> 1/3
         \<and> (\<lambda>N. drawFreq (\<lambda>u. laneOfDraw u = 2) N) \<longlonglongrightarrow> 1/3"
proof -
  have "(subtypeOfDraws a b = FULL \<longleftrightarrow> 0.6 < a)
      \<and> (subtypeOfDraws a b = JUMP \<longleftrightarrow> a \<le> 0.6 \<and> 0.5 < b)
      \<and> (subtypeOfDraws a b = SLIDE \<longleftrightarrow> a \<le> 0.6 \<and> b \<le> 0.5)"
    by (auto simp: subtypeOfDraws_def)
  moreover have "(laneOfDraw u = 0 \<longleftrightarrow> u < 1/3) \<and> (laneOfDraw u = 1 \<longleftrightarrow> 1/3 \<le> u \<and> u < 2/3)
      \<and> (laneOfDraw u = 2 \<longleftrightarrow> 2/3 \<le> u)"
    using laneOfDraw_thirds [OF assms(3,4)] by auto
  ultimately show ?thesis
    using spawnSegment_single [where rnd = rnd and st = st and zPos = zPos, OF assms(1,2)]
      subtype_frequencies lane_frequencies
    by (intro conjI) blast+
qed

theorem single_obstacle_distribution_witness:
  "(- 20 :: real) < - 10 \<and> singleDraws (randCalls initialGame) < 0.3
   \<and> objects (spawnSegment singleDraws (- 20) initialGame) = [wallAt 0 (- 20)]
   \<and> subtypeOfDraws (7/10) (9/10) = FULL \<and> subtypeOfDraws (1/2) (9/10) = JUMP
   \<and> subtypeOfDraws (1/2) (1/2) = SLIDE
   \<and> laneOfDraw (2/5) = 1"
proof -
  have hyps: "(- 20 :: real) < - 10" "singleDraws (randCalls initialGame) < 0.3"
    "(0::real) \<le> 2/5" "(2/5 :: real) < 1"
    by (simp_all add: singleDraws_def initialGame_def)
  have "objects (spawnSegment singleDraws (- 20) initialGame) = [wallAt 0 (- 20)]"
    by (simp add: spawnSegment_def spawnSingle_def pickSubtype_def spawnPickup_def
        Math_random_def spawnObject_def singleDraws_def initialGame_def laneOfDraw_def
        wallAt_def Let_def)
  moreover have "subtypeOfDraws (1/2) (9/10) = JUMP" "subtypeOfDraws (1/2) (1/2) = SLIDE"
    by (simp_all add: subtypeOfDraws_def)
  ultimately show ?thesis
    using single_obstacle_distribution [where rnd = singleDraws and st = initialGame
        and zPos = "- 20" and u = "2/5" and a = "7/10" and b = "9/10", OF hyps] hyps
    by simp
qed

end
